theory Spec2Isabelle
  imports Main "HOL-Library.AList" "HOL-Library.Multiset" "HOL-Library.Sublist"
    "HOL-Library.Extended_Nat"
begin

section \<open>Mirror resolution of jill: \<^verbatim>\<open>src/jill/source.py\<close>\<close>

text \<open>
  The module ranks the download mirrors of a release by network latency and probes the
  ranked URLs until one answers. Its collaborators live outside the module: the URL
  parser, the template engine and the HTTP client of the Python library, and the
  functions \<^verbatim>\<open>query_ip\<close>, \<^verbatim>\<open>port_response_time\<close>, \<^verbatim>\<open>generate_info\<close> and the table
  \<^verbatim>\<open>default_scheme_ports\<close> of sibling modules. They are parameters of the model,
  collected in the record \<open>env\<close>; everything that talks to the network threads a world
  \<open>'w\<close> through, so that the same call may answer differently at different moments, and
  may raise.

  Exceptions are values: a computation returns \<open>Inl e\<close> where the Python raises \<open>e\<close>.
  A Python \<^verbatim>\<open>dict\<close> is an association list in insertion order, written with
  \<^const>\<open>AList.update\<close> and read with \<^const>\<open>map_of\<close>.
\<close>

subsection \<open>Data\<close>

datatype py_error = KeyError | ValueError | IndexError | RequestException | OSError

text \<open>
  What \<^verbatim>\<open>urlparse\<close> yields, as far as the module reads it. The parser is taken as a
  function that answers for every string; it computes, and touches nothing.
\<close>

record parse_result =
  scheme :: string
  netloc :: string

text \<open>
  The answer to a \<^verbatim>\<open>HEAD\<close> request, as far as the module reads it. The headers are
  the pairs of the response, under the spelling that \<^verbatim>\<open>r.headers[...]\<close> finds them by.
\<close>

record response =
  status_code :: int
  headers :: "(string \<times> string) list"

text \<open>
  The collaborators. \<open>'w\<close> is the state of the outside world, \<open>'t\<close> the type of
  timeouts (passed on, never computed with) and \<open>'l\<close> the type of measured latencies
  (only compared).
\<close>

record ('w, 't, 'l) env =
  urlparse :: "string \<Rightarrow> parse_result"
  query_ip :: "string \<Rightarrow> 'w \<Rightarrow> (py_error + string) \<times> 'w"
  default_scheme_ports :: "(string \<times> nat) list"
  port_response_time :: "string \<Rightarrow> nat \<Rightarrow> 't \<Rightarrow> 'w \<Rightarrow> (py_error + 'l) \<times> 'w"
  generate_info :: "string \<Rightarrow> string \<Rightarrow> string \<Rightarrow> py_error + (string \<times> string) list"
  substitute :: "string \<Rightarrow> (string \<times> string) list \<Rightarrow> py_error + string"
  requests_head :: "string \<Rightarrow> 't \<Rightarrow> 'w \<Rightarrow> (py_error + response) \<times> 'w"

text \<open>
  \<^verbatim>\<open>class ReleaseSource\<close>. A template is kept as its text (\<^verbatim>\<open>Template(x).template\<close> is
  \<^verbatim>\<open>x\<close>); \<open>private_latencies\<close> is the attribute \<^verbatim>\<open>_latencies\<close>, empty at construction.
\<close>

record ('t, 'l) ReleaseSource =
  name :: string
  url_templates :: "string list"
  latest_url_templates :: "string list"
  timeout :: 't
  private_latencies :: "(string \<times> 'l) list"

subsection \<open>\<^verbatim>\<open>ReleaseSource\<close>: the properties\<close>

definition urls :: "('t, 'l) ReleaseSource \<Rightarrow> string list" where
  "urls src = url_templates src"

definition latest_urls :: "('t, 'l) ReleaseSource \<Rightarrow> string list" where
  "latest_urls src = latest_url_templates src"

definition hosts :: "('w, 't, 'l) env \<Rightarrow> ('t, 'l) ReleaseSource \<Rightarrow> string list" where
  "hosts E src = map (\<lambda>url. netloc (urlparse E url)) (urls src)"

definition latest_hosts :: "('w, 't, 'l) env \<Rightarrow> ('t, 'l) ReleaseSource \<Rightarrow> string list" where
  "latest_hosts E src = map (\<lambda>url. netloc (urlparse E url)) (latest_urls src)"

text \<open>
  \<^verbatim>\<open>{host: query_ip(host) for host in host_list}\<close>: one lookup per element of the list,
  in order, a repeated host overwriting its entry.
\<close>

fun host_ip_records ::
  "('w, 't, 'l) env \<Rightarrow> string list \<Rightarrow> (string \<times> string) list \<Rightarrow> 'w
     \<Rightarrow> (py_error + (string \<times> string) list) \<times> 'w"
where
  "host_ip_records E [] acc w = (Inr acc, w)"
| "host_ip_records E (host # host_list) acc w =
     (case query_ip E host w of
        (Inl e, w') \<Rightarrow> (Inl e, w')
      | (Inr ip, w') \<Rightarrow> host_ip_records E host_list (AList.update host ip acc) w')"

text \<open>
  \<^verbatim>\<open>{host_ip_records[urlparse(url).netloc]: default_scheme_ports[urlparse(url).scheme]
     for url in url_list}\<close>: both subscripts raise \<^verbatim>\<open>KeyError\<close> on a missing key.
\<close>

fun ip_port_records ::
  "('w, 't, 'l) env \<Rightarrow> (string \<times> string) list \<Rightarrow> string list \<Rightarrow> (string \<times> nat) list
     \<Rightarrow> py_error + (string \<times> nat) list"
where
  "ip_port_records E hir [] acc = Inr acc"
| "ip_port_records E hir (url # url_list) acc =
     (case map_of hir (netloc (urlparse E url)) of
        None \<Rightarrow> Inl KeyError
      | Some ip \<Rightarrow>
          (case map_of (default_scheme_ports E) (scheme (urlparse E url)) of
             None \<Rightarrow> Inl KeyError
           | Some port \<Rightarrow> ip_port_records E hir url_list (AList.update ip port acc)))"

text \<open>
  \<^verbatim>\<open>for ip, port in ip_port_records.items():
      latency_records[ip] = port_response_time(ip, port, self.timeout)\<close>
\<close>

fun latency_records ::
  "('w, 't, 'l) env \<Rightarrow> 't \<Rightarrow> (string \<times> nat) list \<Rightarrow> (string \<times> 'l) list \<Rightarrow> 'w
     \<Rightarrow> (py_error + (string \<times> 'l) list) \<times> 'w"
where
  "latency_records E tmo [] acc w = (Inr acc, w)"
| "latency_records E tmo ((ip, port) # items) acc w =
     (case port_response_time E ip port tmo w of
        (Inl e, w') \<Rightarrow> (Inl e, w')
      | (Inr t, w') \<Rightarrow> latency_records E tmo items (AList.update ip t acc) w')"

text \<open>\<^verbatim>\<open>{host: latency_records[host_ip_records[host]] for host in host_list}\<close>\<close>

fun host_latencies ::
  "(string \<times> string) list \<Rightarrow> (string \<times> 'l) list \<Rightarrow> string list \<Rightarrow> (string \<times> 'l) list
     \<Rightarrow> py_error + (string \<times> 'l) list"
where
  "host_latencies hir lr [] acc = Inr acc"
| "host_latencies hir lr (host # host_list) acc =
     (case map_of hir host of
        None \<Rightarrow> Inl KeyError
      | Some ip \<Rightarrow>
          (case map_of lr ip of
             None \<Rightarrow> Inl KeyError
           | Some t \<Rightarrow> host_latencies hir lr host_list (AList.update host t acc)))"

text \<open>
  The property \<^verbatim>\<open>latencies\<close>. It returns the mapping together with the source, whose
  \<^verbatim>\<open>_latencies\<close> it has assigned when the stored mapping was empty (\<^verbatim>\<open>not self._latencies\<close>),
  and the world after the measurements. An exception leaves the attribute as it was.
\<close>

definition latencies ::
  "('w, 't, 'l) env \<Rightarrow> ('t, 'l) ReleaseSource \<Rightarrow> 'w
     \<Rightarrow> (py_error + (string \<times> 'l) list) \<times> ('t, 'l) ReleaseSource \<times> 'w"
where
  "latencies E src w =
     (if private_latencies src = [] then
        (let url_list = urls src @ latest_urls src;
             host_list = map (\<lambda>url. netloc (urlparse E url)) url_list
         in case host_ip_records E host_list [] w of
              (Inl e, w1) \<Rightarrow> (Inl e, src, w1)
            | (Inr hir, w1) \<Rightarrow>
                (case ip_port_records E hir url_list [] of
                   Inl e \<Rightarrow> (Inl e, src, w1)
                 | Inr ipr \<Rightarrow>
                     (case latency_records E (timeout src) ipr [] w1 of
                        (Inl e, w2) \<Rightarrow> (Inl e, src, w2)
                      | (Inr lr, w2) \<Rightarrow>
                          (case host_latencies hir lr host_list [] of
                             Inl e \<Rightarrow> (Inl e, src, w2)
                           | Inr d \<Rightarrow> (Inr d, src\<lparr>private_latencies := d\<rparr>, w2)))))
      else (Inr (private_latencies src), src, w))"

subsection \<open>\<^verbatim>\<open>ReleaseSource.get_url\<close>\<close>

text \<open>\<^verbatim>\<open>[t.substitute(**configs) for t in template_lists]\<close>: the first failure is raised.\<close>

fun substitute_all ::
  "('w, 't, 'l) env \<Rightarrow> (string \<times> string) list \<Rightarrow> string list \<Rightarrow> py_error + string list"
where
  "substitute_all E configs [] = Inr []"
| "substitute_all E configs (t # template_lists) =
     (case substitute E t configs of
        Inl e \<Rightarrow> Inl e
      | Inr url \<Rightarrow>
          (case substitute_all E configs template_lists of
             Inl e \<Rightarrow> Inl e
           | Inr url_list \<Rightarrow> Inr (url # url_list)))"

text \<open>
  \<^verbatim>\<open>list.sort(key=...)\<close> first calls the key function on every element, from the first
  to the last, and only then orders the list, stably, by the keys. Here the key is
  \<^verbatim>\<open>self.latencies[urlparse(url).netloc]\<close>: every call reads the property, the first may
  populate it.
\<close>

fun source_keys ::
  "('w, 't, 'l) env \<Rightarrow> ('t, 'l) ReleaseSource \<Rightarrow> string list \<Rightarrow> 'w
     \<Rightarrow> (py_error + 'l list) \<times> ('t, 'l) ReleaseSource \<times> 'w"
where
  "source_keys E src [] w = (Inr [], src, w)"
| "source_keys E src (url # url_list) w =
     (case latencies E src w of
        (Inl e, src1, w1) \<Rightarrow> (Inl e, src1, w1)
      | (Inr d, src1, w1) \<Rightarrow>
          (case map_of d (netloc (urlparse E url)) of
             None \<Rightarrow> (Inl KeyError, src1, w1)
           | Some k \<Rightarrow>
               (case source_keys E src1 url_list w1 of
                  (Inl e, src2, w2) \<Rightarrow> (Inl e, src2, w2)
                | (Inr ks, src2, w2) \<Rightarrow> (Inr (k # ks), src2, w2))))"

definition sort_by_keys :: "('l::linorder) list \<Rightarrow> string list \<Rightarrow> string list" where
  "sort_by_keys ks url_list = map snd (sort_key fst (zip ks url_list))"

definition get_url ::
  "('w, 't, 'l::linorder) env \<Rightarrow> ('t, 'l) ReleaseSource \<Rightarrow> string \<Rightarrow> string \<Rightarrow> string \<Rightarrow> 'w
     \<Rightarrow> (py_error + string) \<times> ('t, 'l) ReleaseSource \<times> 'w"
where
  "get_url E src plain_version system architecture w =
     (let template_lists =
            (if plain_version = ''latest'' then latest_url_templates src
             else url_templates src)
      in case generate_info E plain_version system architecture of
           Inl e \<Rightarrow> (Inl e, src, w)
         | Inr configs \<Rightarrow>
             (case substitute_all E configs template_lists of
                Inl e \<Rightarrow> (Inl e, src, w)
              | Inr url_list \<Rightarrow>
                  (case source_keys E src url_list w of
                     (Inl e, src1, w1) \<Rightarrow> (Inl e, src1, w1)
                   | (Inr ks, src1, w1) \<Rightarrow>
                       (case sort_by_keys ks url_list of
                          [] \<Rightarrow> (Inl IndexError, src1, w1)
                        | url # _ \<Rightarrow> (Inr url, src1, w1)))))"

subsection \<open>\<^verbatim>\<open>SourceRegistry\<close>\<close>

text \<open>
  The registry is the list of the values of \<^verbatim>\<open>self.registry\<close>, in the dictionary's order.
  The property \<^verbatim>\<open>latencies\<close> merges the mappings of all sources, a later source
  overwriting the entry of a host that an earlier one has too.
\<close>

definition dict_update_all :: "('k \<times> 'v) list \<Rightarrow> ('k \<times> 'v) list \<Rightarrow> ('k \<times> 'v) list" where
  "dict_update_all records d = foldl (\<lambda>acc (k, v). AList.update k v acc) records d"

fun registry_latencies_from ::
  "('w, 't, 'l) env \<Rightarrow> ('t, 'l) ReleaseSource list \<Rightarrow> (string \<times> 'l) list \<Rightarrow> 'w
     \<Rightarrow> (py_error + (string \<times> 'l) list) \<times> ('t, 'l) ReleaseSource list \<times> 'w"
where
  "registry_latencies_from E [] records w = (Inr records, [], w)"
| "registry_latencies_from E (src # srcs) records w =
     (case latencies E src w of
        (Inl e, src1, w1) \<Rightarrow> (Inl e, src1 # srcs, w1)
      | (Inr d, src1, w1) \<Rightarrow>
          (case registry_latencies_from E srcs (dict_update_all records d) w1 of
             (r, srcs1, w2) \<Rightarrow> (r, src1 # srcs1, w2)))"

definition registry_latencies ::
  "('w, 't, 'l) env \<Rightarrow> ('t, 'l) ReleaseSource list \<Rightarrow> 'w
     \<Rightarrow> (py_error + (string \<times> 'l) list) \<times> ('t, 'l) ReleaseSource list \<times> 'w"
where
  "registry_latencies E registry w = registry_latencies_from E registry [] w"

text \<open>
  \<^verbatim>\<open>[src.get_url(plain_version, system, architecture) for src in self.registry.values()]\<close>:
  no \<^verbatim>\<open>try\<close> surrounds the call, so the first exception ends the comprehension.
\<close>

fun get_url_each ::
  "('w, 't, 'l::linorder) env \<Rightarrow> ('t, 'l) ReleaseSource list \<Rightarrow> string \<Rightarrow> string \<Rightarrow> string \<Rightarrow> 'w
     \<Rightarrow> (py_error + string list) \<times> ('t, 'l) ReleaseSource list \<times> 'w"
where
  "get_url_each E [] plain_version system architecture w = (Inr [], [], w)"
| "get_url_each E (src # srcs) plain_version system architecture w =
     (case get_url E src plain_version system architecture w of
        (Inl e, src1, w1) \<Rightarrow> (Inl e, src1 # srcs, w1)
      | (Inr url, src1, w1) \<Rightarrow>
          (case get_url_each E srcs plain_version system architecture w1 of
             (Inl e, srcs1, w2) \<Rightarrow> (Inl e, src1 # srcs1, w2)
           | (Inr url_list, srcs1, w2) \<Rightarrow> (Inr (url # url_list), src1 # srcs1, w2)))"

text \<open>The keys of the registry's sort: \<^verbatim>\<open>self.latencies[urlparse(url).netloc]\<close>.\<close>

fun registry_keys ::
  "('w, 't, 'l) env \<Rightarrow> ('t, 'l) ReleaseSource list \<Rightarrow> string list \<Rightarrow> 'w
     \<Rightarrow> (py_error + 'l list) \<times> ('t, 'l) ReleaseSource list \<times> 'w"
where
  "registry_keys E registry [] w = (Inr [], registry, w)"
| "registry_keys E registry (url # url_list) w =
     (case registry_latencies E registry w of
        (Inl e, registry1, w1) \<Rightarrow> (Inl e, registry1, w1)
      | (Inr records, registry1, w1) \<Rightarrow>
          (case map_of records (netloc (urlparse E url)) of
             None \<Rightarrow> (Inl KeyError, registry1, w1)
           | Some k \<Rightarrow>
               (case registry_keys E registry1 url_list w1 of
                  (Inl e, registry2, w2) \<Rightarrow> (Inl e, registry2, w2)
                | (Inr ks, registry2, w2) \<Rightarrow> (Inr (k # ks), registry2, w2))))"

definition get_urls ::
  "('w, 't, 'l::linorder) env \<Rightarrow> ('t, 'l) ReleaseSource list \<Rightarrow> string \<Rightarrow> string \<Rightarrow> string \<Rightarrow> 'w
     \<Rightarrow> (py_error + string list) \<times> ('t, 'l) ReleaseSource list \<times> 'w"
where
  "get_urls E registry plain_version system architecture w =
     (case get_url_each E registry plain_version system architecture w of
        (Inl e, registry1, w1) \<Rightarrow> (Inl e, registry1, w1)
      | (Inr url_list, registry1, w1) \<Rightarrow>
          (case registry_keys E registry1 url_list w1 of
             (Inl e, registry2, w2) \<Rightarrow> (Inl e, registry2, w2)
           | (Inr ks, registry2, w2) \<Rightarrow> (Inr (sort_by_keys ks url_list), registry2, w2)))"

subsection \<open>\<^verbatim>\<open>is_url_available\<close>\<close>

text \<open>
  The function calls itself on the target of a redirect, with no bound on the number of
  hops: it need not return. The model is a partial function, \<open>None\<close> standing for a call
  that never returns (the interpreter's limit on the depth of recursion, which would end
  such a call with an error of its own, is not part of the model). An exception of
  \<^verbatim>\<open>requests.head\<close> other than \<^verbatim>\<open>RequestException\<close> is not caught. Python's \<^verbatim>\<open>//\<close> on
  integers is \<open>div\<close>.
\<close>

partial_function (option) is_url_available ::
  "('w, 't, 'l) env \<Rightarrow> string \<Rightarrow> 't \<Rightarrow> 'w \<Rightarrow> ((py_error + bool) \<times> 'w) option"
where
  "is_url_available E url tmo w =
     (case requests_head E url tmo w of
        (Inl e, w') \<Rightarrow>
          if e = RequestException then Some (Inr False, w') else Some (Inl e, w')
      | (Inr r, w') \<Rightarrow>
          if status_code r div 100 = 4 then Some (Inr False, w')
          else if status_code r = 301 \<or> status_code r = 302 then
            (case map_of (headers r) ''Location'' of
               None \<Rightarrow> Some (Inl KeyError, w')
             | Some new_url \<Rightarrow> is_url_available E new_url tmo w')
          else Some (Inr True, w'))"

subsection \<open>\<^verbatim>\<open>query_download_url\<close>\<close>

text \<open>
  The loop over \<^verbatim>\<open>chain.from_iterable(repeat(url_list, max_try))\<close>. Besides the outcome and
  the world, the model returns the trace of the loop: the URLs handed to
  \<^const>\<open>is_url_available\<close>, in the order of the calls, each with what the call returned.
  The trace is an observation of the run, not a value of the program.
\<close>

fun first_available ::
  "('w, 't, 'l) env \<Rightarrow> 't \<Rightarrow> string list \<Rightarrow> 'w
     \<Rightarrow> ((py_error + string option) \<times> (string \<times> (py_error + bool)) list \<times> 'w) option"
where
  "first_available E tmo [] w = Some (Inr None, [], w)"
| "first_available E tmo (url # url_list) w =
     (case is_url_available E url tmo w of
        None \<Rightarrow> None
      | Some (Inl e, w') \<Rightarrow> Some (Inl e, [(url, Inl e)], w')
      | Some (Inr True, w') \<Rightarrow> Some (Inr (Some url), [(url, Inr True)], w')
      | Some (Inr False, w') \<Rightarrow>
          (case first_available E tmo url_list w' of
             None \<Rightarrow> None
           | Some (r, trace, w'') \<Rightarrow> Some (r, (url, Inr False) # trace, w'')))"

text \<open>
  \<^verbatim>\<open>repeat(url_list, max_try)\<close> yields nothing when \<^verbatim>\<open>max_try\<close> is not positive. The
  registry passed in is \<^verbatim>\<open>default_registry\<close>; the one returned has the latency caches
  that the call has filled.
\<close>

definition query_download_url ::
  "('w, 't, 'l::linorder) env \<Rightarrow> ('t, 'l) ReleaseSource list \<Rightarrow> string \<Rightarrow> string \<Rightarrow> string
     \<Rightarrow> int \<Rightarrow> 't \<Rightarrow> 'w
     \<Rightarrow> ((py_error + string option) \<times> (string \<times> (py_error + bool)) list
          \<times> ('t, 'l) ReleaseSource list \<times> 'w) option"
where
  "query_download_url E default_registry version system arch max_try tmo w =
     (case get_urls E default_registry version system arch w of
        (Inl e, registry1, w1) \<Rightarrow> Some (Inl e, [], registry1, w1)
      | (Inr url_list, registry1, w1) \<Rightarrow>
          (case first_available E tmo (concat (replicate (nat max_try) url_list)) w1 of
             None \<Rightarrow> None
           | Some (r, trace, w2) \<Rightarrow> Some (r, trace, registry1, w2)))"

section \<open>An environment to run the model in\<close>

text \<open>
  The theorems below hold for every environment. To show that their hypotheses can be
  met, and to run the functions on concrete requests, this section fixes one: a world
  that is the log of the network events so far, a handful of hosts, and executable
  versions of the two library functions the module leans on.
\<close>

datatype event = Resolve string | Connect string nat | Head string

text \<open>
  \<^verbatim>\<open>string.Template.substitute\<close>: \<^verbatim>\<open>$$\<close> is a dollar sign, \<^verbatim>\<open>$name\<close> and \<^verbatim>\<open>${name}\<close> are
  replaced by the value of \<^verbatim>\<open>name\<close> (\<^verbatim>\<open>KeyError\<close> when there is none), any other use of
  the dollar sign is a \<^verbatim>\<open>ValueError\<close>.
\<close>

definition is_id_start :: "char \<Rightarrow> bool" where
  "is_id_start c = (c \<in> set ''_abcdefghijklmnopqrstuvwxyzABCDEFGHIJKLMNOPQRSTUVWXYZ'')"

definition is_id_char :: "char \<Rightarrow> bool" where
  "is_id_char c = (is_id_start c \<or> c \<in> set ''0123456789'')"

function Template_substitute :: "string \<Rightarrow> (string \<times> string) list \<Rightarrow> py_error + string" where
  "Template_substitute [] mapping = Inr []"
| "Template_substitute (c # cs) mapping =
     (if c \<noteq> CHR ''$'' then map_sum id ((#) c) (Template_substitute cs mapping)
      else case cs of
        [] \<Rightarrow> Inl ValueError
      | d # ds \<Rightarrow>
          if d = CHR ''$'' then map_sum id ((#) CHR ''$'') (Template_substitute ds mapping)
          else if is_id_start d then
            (case map_of mapping (takeWhile is_id_char cs) of
               None \<Rightarrow> Inl KeyError
             | Some v \<Rightarrow> map_sum id ((@) v) (Template_substitute (dropWhile is_id_char cs) mapping))
          else if d = CHR ''{'' \<and> ds \<noteq> [] \<and> is_id_start (hd ds)
                  \<and> take 1 (dropWhile is_id_char ds) = ''}'' then
            (case map_of mapping (takeWhile is_id_char ds) of
               None \<Rightarrow> Inl KeyError
             | Some v \<Rightarrow>
                 map_sum id ((@) v) (Template_substitute (drop 1 (dropWhile is_id_char ds)) mapping))
          else Inl ValueError)"
  by pat_completeness auto
termination
proof (relation "measure (\<lambda>(s, m). length s)", goal_cases)
  case 1
  show ?case by simp
next
  case (2 c cs mapping)
  show ?case by simp
next
  case (3 c cs mapping d ds)
  then show ?case by simp
next
  case (4 c cs mapping d ds v)
  have "length (dropWhile is_id_char cs) \<le> length cs"
    by (rule length_dropWhile_le)
  then show ?case by simp
next
  case (5 c cs mapping d ds v)
  have "length (dropWhile is_id_char ds) \<le> length ds"
    by (rule length_dropWhile_le)
  with 5 show ?case by simp
qed

text \<open>
  \<^verbatim>\<open>urlparse\<close> on the URLs of the examples, which all read \<^verbatim>\<open>scheme://netloc/path\<close>: the
  scheme is what stands before \<^verbatim>\<open>://\<close>, the network location what follows, up to the first
  of \<^verbatim>\<open>/\<close>, \<^verbatim>\<open>?\<close> and \<^verbatim>\<open>#\<close>.
\<close>

definition simple_urlparse :: "string \<Rightarrow> parse_result" where
  "simple_urlparse url =
     (let s = takeWhile (\<lambda>c. c \<noteq> CHR '':'') url;
          rest = dropWhile (\<lambda>c. c \<noteq> CHR '':'') url
      in if take 3 rest = ''://'' then
           \<lparr>scheme = s, netloc = takeWhile (\<lambda>c. c \<notin> set ''/?#'') (drop 3 rest)\<rparr>
         else \<lparr>scheme = [], netloc = []\<rparr>)"

text \<open>
  The network of the examples. Every call is appended to the log. Two of the hosts share
  an address; the address of \<^verbatim>\<open>c.org\<close> does not answer the latency probe, whose value is
  then \<open>\<infinity>\<close>; a URL that the table of \<open>demo_requests_head\<close> does not list cannot be reached
  (\<^verbatim>\<open>RequestException\<close>). \<open>demo_generate_info\<close> supplies the placeholders \<^verbatim>\<open>version\<close>,
  \<^verbatim>\<open>os\<close> and \<^verbatim>\<open>arch\<close>.
\<close>

definition demo_query_ip :: "string \<Rightarrow> event list \<Rightarrow> (py_error + string) \<times> event list" where
  "demo_query_ip host w =
     (case map_of [(''a.org'', ''10.0.0.1''), (''b.org'', ''10.0.0.2''), (''b2.org'', ''10.0.0.2''),
                   (''c.org'', ''10.0.0.3''), (''d.org'', ''10.0.0.4''), (''n.org'', ''10.0.0.5'')] host of
        None \<Rightarrow> (Inl OSError, w @ [Resolve host])
      | Some ip \<Rightarrow> (Inr ip, w @ [Resolve host]))"

definition demo_port_response_time ::
  "string \<Rightarrow> nat \<Rightarrow> nat \<Rightarrow> event list \<Rightarrow> (py_error + enat) \<times> event list" where
  "demo_port_response_time ip port tmo w =
     (case map_of [(''10.0.0.1'', enat 30), (''10.0.0.2'', enat 10), (''10.0.0.4'', enat 20)] ip of
        None \<Rightarrow> (Inr \<infinity>, w @ [Connect ip port])
      | Some t \<Rightarrow> (Inr t, w @ [Connect ip port]))"

definition demo_generate_info :: "string \<Rightarrow> string \<Rightarrow> string \<Rightarrow> py_error + (string \<times> string) list" where
  "demo_generate_info version system architecture =
     Inr [(''version'', version), (''os'', system), (''arch'', architecture)]"

definition demo_requests_head ::
  "string \<Rightarrow> nat \<Rightarrow> event list \<Rightarrow> (py_error + response) \<times> event list" where
  "demo_requests_head url tmo w =
     (case map_of
        [(''http://a.org/1.6'', \<lparr>status_code = 302, headers = [(''Location'', ''http://cdn.org/1.6'')]\<rparr>),
         (''http://cdn.org/1.6'', \<lparr>status_code = 200, headers = []\<rparr>),
         (''http://b.org/1.6'', \<lparr>status_code = 404, headers = []\<rparr>),
         (''http://s.org/1.6'', \<lparr>status_code = 500, headers = []\<rparr>),
         (''http://t.org/1.6'', \<lparr>status_code = 503, headers = []\<rparr>),
         (''http://m.org/1.6'', \<lparr>status_code = 307, headers = [(''Location'', ''http://b.org/1.6'')]\<rparr>),
         (''http://n.org/1.6'', \<lparr>status_code = 301, headers = []\<rparr>),
         (''http://r.org/1.6'', \<lparr>status_code = 301, headers = [(''Location'', ''http://b.org/1.6'')]\<rparr>)] url of
        None \<Rightarrow> (Inl RequestException, w @ [Head url])
      | Some r \<Rightarrow> (Inr r, w @ [Head url]))"

definition demo_env :: "(event list, nat, enat) env" where
  "demo_env =
     \<lparr>urlparse = simple_urlparse,
      query_ip = demo_query_ip,
      default_scheme_ports = [(''http'', 80), (''https'', 443)],
      port_response_time = demo_port_response_time,
      generate_info = demo_generate_info,
      substitute = Template_substitute,
      requests_head = demo_requests_head\<rparr>"

text \<open>
  Eight sources, as \<^verbatim>\<open>ReleaseSource(name, urls, latest_urls, timeout)\<close> constructs them:
  no latency measured yet.
\<close>

definition mirror_a :: "(nat, enat) ReleaseSource" where
  "mirror_a = \<lparr>name = ''a'', url_templates = [''http://a.org/$version''],
     latest_url_templates = [''https://a.org/latest''], timeout = 2, private_latencies = []\<rparr>"

definition mirror_b :: "(nat, enat) ReleaseSource" where
  "mirror_b = \<lparr>name = ''b'', url_templates = [''http://c.org/$version'', ''http://b.org/${version}''],
     latest_url_templates = [], timeout = 2, private_latencies = []\<rparr>"

definition mirror_c :: "(nat, enat) ReleaseSource" where
  "mirror_c = \<lparr>name = ''c'', url_templates = [''http://c.org/$nosuch''],
     latest_url_templates = [''http://c.org/latest/$nosuch''], timeout = 2,
     private_latencies = []\<rparr>"

definition mirror_d :: "(nat, enat) ReleaseSource" where
  "mirror_d = \<lparr>name = ''d'', url_templates = [''http://d.org/$version''],
     latest_url_templates = [], timeout = 2, private_latencies = []\<rparr>"

definition mirror_e :: "(nat, enat) ReleaseSource" where
  "mirror_e = \<lparr>name = ''e'', url_templates = [''http://c.org/$version''],
     latest_url_templates = [], timeout = 2, private_latencies = []\<rparr>"

definition mirror_f :: "(nat, enat) ReleaseSource" where
  "mirror_f = \<lparr>name = ''f'', url_templates = [''http://d.org/$version''],
     latest_url_templates = [''https://a.org/latest''], timeout = 2, private_latencies = []\<rparr>"

definition mirror_g :: "(nat, enat) ReleaseSource" where
  "mirror_g = \<lparr>name = ''g'', url_templates = [''gopher://d.org/$version''],
     latest_url_templates = [], timeout = 2, private_latencies = []\<rparr>"

definition mirror_n :: "(nat, enat) ReleaseSource" where
  "mirror_n = \<lparr>name = ''n'', url_templates = [''http://n.org/$version''],
     latest_url_templates = [], timeout = 2, private_latencies = []\<rparr>"

section \<open>Evaluation\<close>

lemmas demo_defs = demo_env_def mirror_a_def mirror_b_def mirror_c_def mirror_d_def mirror_e_def
  mirror_f_def mirror_g_def mirror_n_def
  demo_requests_head_def
  demo_generate_info_def demo_port_response_time_def demo_query_ip_def simple_urlparse_def
  is_id_start_def is_id_char_def

lemmas model_defs = latencies_def urls_def latest_urls_def get_url_def get_urls_def
  sort_by_keys_def registry_latencies_def dict_update_all_def query_download_url_def

lemma replicate_2: "replicate 2 x = [x, x]"
  by (simp add: numeral_2_eq_2)

lemma replicate_3: "replicate 3 x = [x, x, x]"
  by (simp add: numeral_3_eq_3)

lemma set_concat_replicate: "set (concat (replicate n xs)) \<subseteq> set xs"
  by (induction n) auto

lemma length_concat_replicate: "length (concat (replicate n xs)) = n * length xs"
  by (induction n) auto

section \<open>The latency cache of a source\<close>

text \<open>
  The keys of the computed mapping are the hosts of the list it is built from; a stored
  mapping is returned as it is; a source without any template computes the empty mapping
  without a single call to the network.
\<close>

lemma host_latencies_keys:
  assumes "host_latencies hir lr host_list acc = Inr d"
  shows "fst ` set d = fst ` set acc \<union> set host_list"
  using assms
proof (induction host_list arbitrary: acc)
  case Nil
  then show ?case by simp
next
  case (Cons host host_list)
  from Cons.prems obtain ip t
    where "host_latencies hir lr host_list (AList.update host t acc) = Inr d"
    by (auto split: option.splits)
  from Cons.IH [OF this] show ?case
    by (simp add: dom_update)
qed

lemma latencies_compute:
  assumes "private_latencies src = []" and "latencies E src w = (Inr d, src', w')"
  shows "src' = src\<lparr>private_latencies := d\<rparr>
    \<and> fst ` set d = set (map (\<lambda>url. netloc (urlparse E url)) (urls src @ latest_urls src))"
proof -
  let ?url_list = "urls src @ latest_urls src"
  let ?host_list = "map (\<lambda>url. netloc (urlparse E url)) ?url_list"
  from assms obtain hir lr
    where "host_latencies hir lr ?host_list [] = Inr d"
      and "src' = src\<lparr>private_latencies := d\<rparr>"
    by (auto simp: latencies_def Let_def split: prod.splits sum.splits)
  with host_latencies_keys [of hir lr ?host_list "[]" d] show ?thesis by simp
qed

lemma latencies_stored:
  "private_latencies src \<noteq> [] \<Longrightarrow> latencies E src w = (Inr (private_latencies src), src, w)"
  by (simp add: latencies_def)

lemma latencies_no_templates:
  assumes "private_latencies src = []" and "urls src @ latest_urls src = []"
  shows "latencies E src w = (Inr [], src, w)"
  using assms by (simp add: latencies_def)

lemma latencies_result_stored:
  assumes "latencies E src w = (Inr d, src', w')"
  shows "private_latencies src' = d"
proof (cases "private_latencies src = []")
  case True
  from latencies_compute [OF True assms] show ?thesis by simp
next
  case False
  with assms show ?thesis by (auto simp: latencies_def)
qed

lemma latencies_again:
  assumes "private_latencies src = []" and "latencies E src w = (Inr d, src', w')"
  shows "latencies E src' w2 = (Inr d, src', w2)"
proof (cases "d = []")
  case False
  with latencies_result_stored [OF assms(2)] latencies_stored [of src' E w2]
  show ?thesis by simp
next
  case True
  from latencies_compute [OF assms] True
  have s: "src' = src" and n: "urls src @ latest_urls src = []"
    using assms(1) by auto
  from latencies_no_templates [OF assms(1) n, of E w2] s True show ?thesis by simp
qed

lemma source_keys_stored:
  assumes "private_latencies src \<noteq> []"
  shows "\<exists>r. source_keys E src url_list w = (r, src, w)"
proof (induction url_list)
  case Nil
  show ?case by simp
next
  case (Cons url url_list)
  then obtain r where "source_keys E src url_list w = (r, src, w)" by blast
  with latencies_stored [OF assms, of E w] show ?case
    by (cases r) (auto split: option.splits)
qed

lemma source_keys_first:
  assumes "source_keys E src (url # url_list) w = (Inr ks, src1, w1)"
  shows "\<exists>d. latencies E src w = (Inr d, src1, w1) \<and> d \<noteq> []"
proof -
  from assms obtain d s' w' k
    where l: "latencies E src w = (Inr d, s', w')"
      and m: "map_of d (netloc (urlparse E url)) = Some k"
      and r: "fst (snd (source_keys E s' url_list w')) = src1"
             "snd (snd (source_keys E s' url_list w')) = w1"
    by (auto split: prod.splits sum.splits option.splits)
  from m have ne: "d \<noteq> []" by auto
  with latencies_result_stored [OF l] have "private_latencies s' \<noteq> []" by simp
  from source_keys_stored [OF this, of E url_list w'] r have "src1 = s'" "w1 = w'"
    by auto
  with l ne show ?thesis by simp
qed

lemma get_url_first_access:
  assumes "get_url E src plain_version system architecture w = (Inr url, src1, w1)"
  shows "\<exists>d. latencies E src w = (Inr d, src1, w1) \<and> d \<noteq> []"
proof -
  from assms obtain url_list ks
    where k: "source_keys E src url_list w = (Inr ks, src1, w1)"
      and s: "sort_by_keys ks url_list \<noteq> []"
    by (auto simp: get_url_def Let_def split: prod.splits sum.splits list.splits)
  from s have "url_list \<noteq> []" by (auto simp: sort_by_keys_def)
  then obtain u us where "url_list = u # us" by (cases url_list) auto
  with k source_keys_first [of E src u us w ks src1 w1] show ?thesis by simp
qed

lemma latencies_error:
  assumes "latencies E src w = (Inl e, src', w')"
  shows "src' = src"
  using assms
  by (auto simp: latencies_def Let_def split: if_splits prod.splits sum.splits)

text \<open>
  \<^bold>\<open>C8\<close>, as amended. For a source whose cache is still empty, an access to \<^verbatim>\<open>latencies\<close>
  that returns stores the mapping it returns and changes nothing else of the source; the
  keys of this mapping are exactly the hosts of the templates of \<^verbatim>\<open>url_templates\<close> and of
  \<^verbatim>\<open>latest_url_templates\<close> (which are the properties \<^verbatim>\<open>hosts\<close> and \<^verbatim>\<open>latest_hosts\<close>); and every
  later access, in whatever world, returns the same mapping and leaves the source and the
  world as they are: nothing is resolved or measured again. The same holds after a first
  call of \<^verbatim>\<open>get_url\<close> that returns a URL, which is what triggers the access. An access that
  raises leaves the source as it was, its cache empty.
\<close>

theorem latencies_populated_once:
  assumes "private_latencies src = []"
  shows "(\<forall>d src' w'. latencies E src w = (Inr d, src', w') \<longrightarrow>
            src' = src\<lparr>private_latencies := d\<rparr>
          \<and> private_latencies src' = d
          \<and> fst ` set d = (\<lambda>url. netloc (urlparse E url))
                              ` (set (url_templates src) \<union> set (latest_url_templates src))
          \<and> fst ` set d = set (hosts E src') \<union> set (latest_hosts E src')
          \<and> (\<forall>w2. latencies E src' w2 = (Inr d, src', w2)))
       \<and> (\<forall>plain_version system architecture url src' w'.
            get_url E src plain_version system architecture w = (Inr url, src', w') \<longrightarrow>
            src' = src\<lparr>private_latencies := private_latencies src'\<rparr>
          \<and> fst ` set (private_latencies src')
              = (\<lambda>url. netloc (urlparse E url))
                  ` (set (url_templates src) \<union> set (latest_url_templates src))
          \<and> fst ` set (private_latencies src') = set (hosts E src') \<union> set (latest_hosts E src')
          \<and> (\<forall>w2. latencies E src' w2 = (Inr (private_latencies src'), src', w2)))
       \<and> (\<forall>e src' w'. latencies E src w = (Inl e, src', w') \<longrightarrow> src' = src)"
proof -
  have a: "src' = src\<lparr>private_latencies := d\<rparr>
          \<and> private_latencies src' = d
          \<and> fst ` set d = (\<lambda>url. netloc (urlparse E url))
                              ` (set (url_templates src) \<union> set (latest_url_templates src))
          \<and> fst ` set d = set (hosts E src') \<union> set (latest_hosts E src')
          \<and> (\<forall>w2. latencies E src' w2 = (Inr d, src', w2))"
    if l: "latencies E src w0 = (Inr d, src', w')" for d src' w' w0
  proof -
    from latencies_compute [OF assms l]
    have s: "src' = src\<lparr>private_latencies := d\<rparr>"
      and k: "fst ` set d = set (map (\<lambda>url. netloc (urlparse E url)) (urls src @ latest_urls src))"
      by simp_all
    from k have f: "fst ` set d = (\<lambda>url. netloc (urlparse E url))
                              ` (set (url_templates src) \<union> set (latest_url_templates src))"
      by (simp add: urls_def latest_urls_def image_Un)
    from s have "hosts E src' = hosts E src" "latest_hosts E src' = latest_hosts E src"
      by (simp_all add: hosts_def latest_hosts_def urls_def latest_urls_def)
    with k have h: "fst ` set d = set (hosts E src') \<union> set (latest_hosts E src')"
      by (simp add: hosts_def latest_hosts_def)
    from s f h latencies_result_stored [OF l] latencies_again [OF assms l] show ?thesis
      by blast
  qed
  have b: "src' = src\<lparr>private_latencies := private_latencies src'\<rparr>
          \<and> fst ` set (private_latencies src')
              = (\<lambda>url. netloc (urlparse E url))
                  ` (set (url_templates src) \<union> set (latest_url_templates src))
          \<and> fst ` set (private_latencies src') = set (hosts E src') \<union> set (latest_hosts E src')
          \<and> (\<forall>w2. latencies E src' w2 = (Inr (private_latencies src'), src', w2))"
    if g: "get_url E src plain_version system architecture w = (Inr url, src', w')"
    for plain_version system architecture url src' w'
  proof -
    from get_url_first_access [OF g] obtain d where "latencies E src w = (Inr d, src', w')"
      by blast
    from a [OF this]
    have s: "src' = src\<lparr>private_latencies := d\<rparr>"
      and p: "private_latencies src' = d"
      and f: "fst ` set d = (\<lambda>url. netloc (urlparse E url))
                              ` (set (url_templates src) \<union> set (latest_url_templates src))"
      and h: "fst ` set d = set (hosts E src') \<union> set (latest_hosts E src')"
      and r: "\<forall>w2. latencies E src' w2 = (Inr d, src', w2)"
      by blast+
    from s p have 1: "src' = src\<lparr>private_latencies := private_latencies src'\<rparr>"
      by simp
    have 2: "fst ` set (private_latencies src')
              = (\<lambda>url. netloc (urlparse E url))
                  ` (set (url_templates src) \<union> set (latest_url_templates src))"
      using f p by simp
    have 3: "fst ` set (private_latencies src') = set (hosts E src') \<union> set (latest_hosts E src')"
      using h p by simp
    have 4: "\<forall>w2. latencies E src' w2 = (Inr (private_latencies src'), src', w2)"
      using r p by simp
    from 1 2 3 4 show ?thesis by (intro conjI)
  qed
  have c: "src' = src" if "latencies E src w = (Inl e, src', w')" for e src' w'
    using that by (rule latencies_error)
  from a [of w] b c show ?thesis by blast
qed

theorem latencies_populated_once_witness:
  "private_latencies mirror_f = []
   \<and> latencies demo_env mirror_f []
       = (Inr [(''d.org'', enat 20), (''a.org'', enat 30)],
          mirror_f\<lparr>private_latencies := [(''d.org'', enat 20), (''a.org'', enat 30)]\<rparr>,
          [Resolve ''d.org'', Resolve ''a.org'', Connect ''10.0.0.4'' 80, Connect ''10.0.0.1'' 443])
   \<and> url_templates mirror_f = [''http://d.org/$version'']
   \<and> latest_url_templates mirror_f = [''https://a.org/latest'']
   \<and> fst ` set [(''d.org'', enat 20), (''a.org'', enat 30)]
       = (\<lambda>url. netloc (urlparse demo_env url))
           ` (set (url_templates mirror_f) \<union> set (latest_url_templates mirror_f))
   \<and> (\<lambda>url. netloc (urlparse demo_env url))
           ` (set (url_templates mirror_f) \<union> set (latest_url_templates mirror_f))
       = {''a.org'', ''d.org''}
   \<and> (\<forall>w2. latencies demo_env
               (mirror_f\<lparr>private_latencies := [(''d.org'', enat 20), (''a.org'', enat 30)]\<rparr>) w2
            = (Inr [(''d.org'', enat 20), (''a.org'', enat 30)],
               mirror_f\<lparr>private_latencies := [(''d.org'', enat 20), (''a.org'', enat 30)]\<rparr>, w2))
   \<and> get_url demo_env mirror_f ''1.6'' ''linux'' ''x86_64'' []
       = (Inr ''http://d.org/1.6'',
          mirror_f\<lparr>private_latencies := [(''d.org'', enat 20), (''a.org'', enat 30)]\<rparr>,
          [Resolve ''d.org'', Resolve ''a.org'', Connect ''10.0.0.4'' 80, Connect ''10.0.0.1'' 443])
   \<and> private_latencies mirror_g = []
   \<and> latencies demo_env mirror_g [] = (Inl KeyError, mirror_g, [Resolve ''d.org''])"
proof -
  let ?d = "[(''d.org'', enat 20), (''a.org'', enat 30)]"
  let ?src' = "mirror_f\<lparr>private_latencies := ?d\<rparr>"
  let ?w' = "[Resolve ''d.org'', Resolve ''a.org'', Connect ''10.0.0.4'' 80, Connect ''10.0.0.1'' 443]"
  have e: "private_latencies mirror_f = []"
    by (simp add: mirror_f_def)
  have l: "latencies demo_env mirror_f [] = (Inr ?d, ?src', ?w')"
    by (simp add: demo_defs model_defs)
  have g: "get_url demo_env mirror_f ''1.6'' ''linux'' ''x86_64'' [] = (Inr ''http://d.org/1.6'', ?src', ?w')"
    by (simp add: demo_defs model_defs)
  have t: "url_templates mirror_f = [''http://d.org/$version'']"
    "latest_url_templates mirror_f = [''https://a.org/latest'']"
    by (simp_all add: mirror_f_def)
  have k: "(\<lambda>url. netloc (urlparse demo_env url))
           ` (set (url_templates mirror_f) \<union> set (latest_url_templates mirror_f))
       = {''a.org'', ''d.org''}"
    by (simp add: demo_defs)
  note a = latencies_populated_once [OF e, of demo_env "[]", THEN conjunct1, rule_format, OF l]
  from a have 1: "fst ` set ?d = (\<lambda>url. netloc (urlparse demo_env url))
                            ` (set (url_templates mirror_f) \<union> set (latest_url_templates mirror_f))"
    by (elim conjE)
  from a have 2: "\<forall>w2. latencies demo_env ?src' w2 = (Inr ?d, ?src', w2)"
    by (elim conjE)
  have e': "private_latencies mirror_g = []"
    by (simp add: mirror_g_def)
  obtain src' where x: "latencies demo_env mirror_g [] = (Inl KeyError, src', [Resolve ''d.org''])"
    by (simp add: demo_defs model_defs)
  note c = latencies_populated_once
             [OF e', of demo_env "[]", THEN conjunct2, THEN conjunct2, rule_format, OF x]
  from x c have r: "latencies demo_env mirror_g [] = (Inl KeyError, mirror_g, [Resolve ''d.org''])"
    by (simp only:)
  from e l t 1 k 2 g e' r show ?thesis
    by (intro conjI)
qed

text \<open>
  The statement of C8 fails on a source whose template has a scheme that
  \<^verbatim>\<open>default_scheme_ports\<close> does not list: the first access, through \<^verbatim>\<open>get_url\<close> or directly,
  raises \<^verbatim>\<open>KeyError\<close> once the host is resolved, the cache has no entry for the host, and
  the next access resolves the host again.
\<close>

theorem latencies_raising_counterexample:
  "private_latencies mirror_g = []
   \<and> hosts demo_env mirror_g = [''d.org'']
   \<and> latencies demo_env mirror_g [] = (Inl KeyError, mirror_g, [Resolve ''d.org''])
   \<and> get_url demo_env mirror_g ''1.6'' ''linux'' ''x86_64'' []
       = (Inl KeyError, mirror_g, [Resolve ''d.org''])
   \<and> latencies demo_env mirror_g [Resolve ''d.org'']
       = (Inl KeyError, mirror_g, [Resolve ''d.org'', Resolve ''d.org''])"
  by (simp add: demo_defs model_defs hosts_def)

section \<open>The best URL of a source\<close>

text \<open>
  \<^bold>\<open>C9\<close>. When the template list selected by the version is empty, \<^verbatim>\<open>get_url\<close> returns no
  URL: \<^verbatim>\<open>url_list[0]\<close> raises \<^verbatim>\<open>IndexError\<close> (unless \<^verbatim>\<open>generate_info\<close> has raised before), the
  other template list is not consulted, and neither the cache nor the world is touched.
\<close>

theorem get_url_empty_templates:
  assumes "(if plain_version = ''latest'' then latest_url_templates src else url_templates src)
             = []"
  shows "(\<forall>configs. generate_info E plain_version system architecture = Inr configs \<longrightarrow>
            get_url E src plain_version system architecture w = (Inl IndexError, src, w))
       \<and> (\<forall>url src' w'. get_url E src plain_version system architecture w \<noteq> (Inr url, src', w'))"
proof -
  have a: "get_url E src plain_version system architecture w = (Inl IndexError, src, w)"
    if "generate_info E plain_version system architecture = Inr configs" for configs
    using that assms by (simp add: get_url_def sort_by_keys_def)
  have b: "get_url E src plain_version system architecture w \<noteq> (Inr url, src', w')"
    for url src' w'
  proof (cases "generate_info E plain_version system architecture")
    case (Inl e)
    with assms show ?thesis by (simp add: get_url_def)
  next
    case (Inr configs)
    from a [OF this] show ?thesis by simp
  qed
  from a b show ?thesis by blast
qed

theorem get_url_empty_templates_witness:
  "(if ''latest'' = ''latest'' then latest_url_templates mirror_b else url_templates mirror_b) = []
   \<and> url_templates mirror_b = [''http://c.org/$version'', ''http://b.org/${version}'']
   \<and> generate_info demo_env ''latest'' ''linux'' ''x86_64''
       = Inr [(''version'', ''latest''), (''os'', ''linux''), (''arch'', ''x86_64'')]
   \<and> get_url demo_env mirror_b ''latest'' ''linux'' ''x86_64'' [] = (Inl IndexError, mirror_b, [])"
proof -
  have e: "(if ''latest'' = ''latest'' then latest_url_templates mirror_b
            else url_templates mirror_b) = []"
    by (simp add: mirror_b_def)
  have g: "generate_info demo_env ''latest'' ''linux'' ''x86_64''
       = Inr [(''version'', ''latest''), (''os'', ''linux''), (''arch'', ''x86_64'')]"
    by (simp add: demo_env_def demo_generate_info_def)
  from get_url_empty_templates [OF e, of demo_env "''linux''" "''x86_64''" "[]"] g
  have "get_url demo_env mirror_b ''latest'' ''linux'' ''x86_64'' [] = (Inl IndexError, mirror_b, [])"
    by blast
  with e g show ?thesis by (simp add: mirror_b_def)
qed

lemma substitute_all_error:
  assumes "t \<in> set template_lists" and "substitute E t configs = Inl e"
  shows "\<exists>e'. substitute_all E configs template_lists = Inl e'"
  using assms by (induction template_lists) (auto split: sum.splits)

lemma get_url_template_error:
  assumes "generate_info E plain_version system architecture = Inr configs"
    and "t \<in> set (if plain_version = ''latest'' then latest_url_templates src
                    else url_templates src)"
    and "substitute E t configs = Inl e"
  shows "\<exists>e'. get_url E src plain_version system architecture w = (Inl e', src, w)"
proof -
  from substitute_all_error [OF assms(2,3)] obtain e'
    where "substitute_all E configs
             (if plain_version = ''latest'' then latest_url_templates src else url_templates src)
           = Inl e'"
    by blast
  with assms(1) show ?thesis by (simp add: get_url_def)
qed

lemma get_url_populated:
  assumes "get_url E src plain_version system architecture w = (Inr url, src1, w1)"
  shows "private_latencies src1 \<noteq> []"
proof -
  from get_url_first_access [OF assms] obtain d
    where l: "latencies E src w = (Inr d, src1, w1)" and ne: "d \<noteq> []"
    by blast
  from latencies_result_stored [OF l] ne show ?thesis by simp
qed

section \<open>The candidate list of the registry\<close>

lemma get_url_each_error:
  assumes "src \<in> set registry"
    and "\<And>w. \<exists>e src' w'. get_url E src plain_version system architecture w = (Inl e, src', w')"
  shows "\<exists>e registry' w'.
           get_url_each E registry plain_version system architecture w = (Inl e, registry', w')"
  using assms(1)
proof (induction registry arbitrary: w)
  case Nil
  then show ?case by simp
next
  case (Cons s srcs)
  obtain r s1 w1 where g: "get_url E s plain_version system architecture w = (r, s1, w1)"
    by (cases "get_url E s plain_version system architecture w") auto
  show ?case
  proof (cases r)
    case (Inl e)
    with g show ?thesis by simp
  next
    case (Inr url)
    with g assms(2) [of w] have "src \<noteq> s" by auto
    with Cons.prems have "src \<in> set srcs" by simp
    from Cons.IH [OF this, of w1] obtain e registry' w'
      where "get_url_each E srcs plain_version system architecture w1 = (Inl e, registry', w')"
      by blast
    with g Inr show ?thesis by simp
  qed
qed

lemma get_url_each_length:
  assumes "get_url_each E registry plain_version system architecture w = (Inr url_list, registry', w')"
  shows "length url_list = length registry \<and> length registry' = length registry"
  using assms
proof (induction registry arbitrary: w url_list registry')
  case Nil
  then show ?case by simp
next
  case (Cons s srcs)
  then show ?case
    by (auto split: prod.splits sum.splits)
qed

lemma registry_keys_length:
  assumes "registry_keys E registry url_list w = (Inr ks, registry', w')"
  shows "length ks = length url_list"
  using assms
proof (induction url_list arbitrary: registry w ks)
  case Nil
  then show ?case by simp
next
  case (Cons url url_list)
  then show ?case
    by (auto split: prod.splits sum.splits option.splits)
qed

lemma length_sort_by_keys:
  "length ks = length url_list \<Longrightarrow> length (sort_by_keys ks url_list) = length url_list"
  by (simp add: sort_by_keys_def)

lemma substitute_all_first_error:
  assumes "substitute_all E configs ts1 = Inr us" and "substitute E t configs = Inl e"
  shows "substitute_all E configs (ts1 @ t # ts2) = Inl e"
  using assms by (induction ts1 arbitrary: us) (auto split: sum.splits)

lemma get_url_each_first_error:
  assumes "get_url_each E pre plain_version system architecture w = (Inr us, pre', w1)"
    and "get_url E src plain_version system architecture w1 = (Inl e, src', w2)"
  shows "get_url_each E (pre @ src # post) plain_version system architecture w
           = (Inl e, pre' @ src' # post, w2)"
  using assms(1)
proof (induction pre arbitrary: w us pre')
  case Nil
  with assms(2) show ?case by simp
next
  case (Cons s pre)
  from Cons.prems obtain url s1 w' us' pre1
    where g: "get_url E s plain_version system architecture w = (Inr url, s1, w')"
      and e: "get_url_each E pre plain_version system architecture w' = (Inr us', pre1, w1)"
      and r: "pre' = s1 # pre1"
    by (auto split: prod.splits sum.splits)
  from Cons.IH [OF e] g r show ?case by simp
qed

lemma get_urls_length:
  assumes "get_urls E registry plain_version system architecture w = (Inr url_list, registry', w')"
  shows "length url_list = length registry"
proof -
  from assms obtain best registry1 w1 ks
    where e: "get_url_each E registry plain_version system architecture w = (Inr best, registry1, w1)"
      and k: "registry_keys E registry1 best w1 = (Inr ks, registry', w')"
      and u: "url_list = sort_by_keys ks best"
    by (auto simp: get_urls_def split: prod.splits sum.splits)
  from registry_keys_length [OF k] u have "length url_list = length best"
    by (simp add: length_sort_by_keys)
  with get_url_each_length [OF e] show ?thesis by simp
qed

text \<open>
  \<^bold>\<open>C2\<close>, as amended. The specification has the registry skip a mirror whose template
  cannot be filled. The code has no handler around \<^verbatim>\<open>src.get_url\<close>. First: when a
  template of the selected list of some mirror fails to substitute, \<^verbatim>\<open>get_urls\<close> raises and
  returns no list at all. Second: the exception it raises is the one of the first mirror, in
  the order of the registry, whose \<^verbatim>\<open>get_url\<close> raises; the mirrors after it are not asked.
  Third: that exception is the template error when the mirrors before have all returned a
  URL and the templates before the failing one, in the list of its mirror, substitute; the
  failing mirror is then left as it was. (A mirror before it that raises, one with an empty
  template list say, ends the call with its own exception.) Fourth: whenever \<^verbatim>\<open>get_urls\<close>
  does return a list, the list has exactly one URL for each mirror of the registry.
\<close>

theorem get_urls_template_error_propagates:
  "(\<forall>src configs t e.
      src \<in> set registry \<longrightarrow>
      generate_info E plain_version system architecture = Inr configs \<longrightarrow>
      t \<in> set (if plain_version = ''latest'' then latest_url_templates src
                 else url_templates src) \<longrightarrow>
      substitute E t configs = Inl e \<longrightarrow>
      (\<exists>e' registry' w'.
         get_urls E registry plain_version system architecture w = (Inl e', registry', w')))
   \<and> (\<forall>pre src post us pre' w1 e src' w2.
        registry = pre @ src # post \<longrightarrow>
        get_url_each E pre plain_version system architecture w = (Inr us, pre', w1) \<longrightarrow>
        get_url E src plain_version system architecture w1 = (Inl e, src', w2) \<longrightarrow>
        get_urls E registry plain_version system architecture w = (Inl e, pre' @ src' # post, w2))
   \<and> (\<forall>pre src post us pre' w1 configs ts1 t ts2 us1 e.
        registry = pre @ src # post \<longrightarrow>
        get_url_each E pre plain_version system architecture w = (Inr us, pre', w1) \<longrightarrow>
        generate_info E plain_version system architecture = Inr configs \<longrightarrow>
        (if plain_version = ''latest'' then latest_url_templates src else url_templates src)
          = ts1 @ t # ts2 \<longrightarrow>
        substitute_all E configs ts1 = Inr us1 \<longrightarrow>
        substitute E t configs = Inl e \<longrightarrow>
        get_urls E registry plain_version system architecture w = (Inl e, pre' @ src # post, w1))
   \<and> (\<forall>url_list registry' w'.
        get_urls E registry plain_version system architecture w = (Inr url_list, registry', w')
        \<longrightarrow> length url_list = length registry)"
proof (intro conjI allI impI)
  fix src configs t e
  assume s: "src \<in> set registry"
    and g: "generate_info E plain_version system architecture = Inr configs"
    and t: "t \<in> set (if plain_version = ''latest'' then latest_url_templates src
                 else url_templates src)"
    and f: "substitute E t configs = Inl e"
  have "\<exists>e registry' w'.
           get_url_each E registry plain_version system architecture w = (Inl e, registry', w')"
  proof (rule get_url_each_error [OF s])
    fix w0
    from get_url_template_error [OF g t f, of w0]
    show "\<exists>e src' w'. get_url E src plain_version system architecture w0 = (Inl e, src', w')"
      by blast
  qed
  then show "\<exists>e' registry' w'.
         get_urls E registry plain_version system architecture w = (Inl e', registry', w')"
    by (auto simp: get_urls_def)
next
  fix pre src post us pre' w1 e src' w2
  assume r: "registry = pre @ src # post"
    and p: "get_url_each E pre plain_version system architecture w = (Inr us, pre', w1)"
    and g: "get_url E src plain_version system architecture w1 = (Inl e, src', w2)"
  from get_url_each_first_error [OF p g, of post] r
  show "get_urls E registry plain_version system architecture w = (Inl e, pre' @ src' # post, w2)"
    by (simp add: get_urls_def)
next
  fix pre src post us pre' w1 configs ts1 t ts2 us1 e
  assume r: "registry = pre @ src # post"
    and p: "get_url_each E pre plain_version system architecture w = (Inr us, pre', w1)"
    and g: "generate_info E plain_version system architecture = Inr configs"
    and ts: "(if plain_version = ''latest'' then latest_url_templates src else url_templates src)
          = ts1 @ t # ts2"
    and s1: "substitute_all E configs ts1 = Inr us1"
    and f: "substitute E t configs = Inl e"
  from substitute_all_first_error [OF s1 f, of ts2] g ts
  have "get_url E src plain_version system architecture w1 = (Inl e, src, w1)"
    by (simp add: get_url_def)
  from get_url_each_first_error [OF p this, of post] r
  show "get_urls E registry plain_version system architecture w = (Inl e, pre' @ src # post, w1)"
    by (simp add: get_urls_def)
next
  fix url_list registry' w'
  assume "get_urls E registry plain_version system architecture w = (Inr url_list, registry', w')"
  then show "length url_list = length registry" by (rule get_urls_length)
qed

theorem get_urls_template_error_propagates_witness:
  "mirror_c \<in> set [mirror_a, mirror_c]
   \<and> generate_info demo_env ''1.6'' ''linux'' ''x86_64''
       = Inr [(''version'', ''1.6''), (''os'', ''linux''), (''arch'', ''x86_64'')]
   \<and> (if ''1.6'' = ''latest'' then latest_url_templates mirror_c else url_templates mirror_c)
       = [] @ ''http://c.org/$nosuch'' # []
   \<and> substitute demo_env ''http://c.org/$nosuch''
       [(''version'', ''1.6''), (''os'', ''linux''), (''arch'', ''x86_64'')] = Inl KeyError
   \<and> get_url_each demo_env [mirror_a] ''1.6'' ''linux'' ''x86_64'' []
       = (Inr [''http://a.org/1.6''],
          [mirror_a\<lparr>private_latencies := [(''a.org'', enat 30)]\<rparr>],
          [Resolve ''a.org'', Resolve ''a.org'', Connect ''10.0.0.1'' 443])
   \<and> get_urls demo_env [mirror_a, mirror_c] ''1.6'' ''linux'' ''x86_64'' []
       = (Inl KeyError,
          [mirror_a\<lparr>private_latencies := [(''a.org'', enat 30)]\<rparr>] @ mirror_c # [],
          [Resolve ''a.org'', Resolve ''a.org'', Connect ''10.0.0.1'' 443])
   \<and> substitute demo_env ''http://c.org/latest/$nosuch''
       [(''version'', ''latest''), (''os'', ''linux''), (''arch'', ''x86_64'')] = Inl KeyError
   \<and> get_url_each demo_env [] ''latest'' ''linux'' ''x86_64'' [] = (Inr [], [], [])
   \<and> get_url demo_env mirror_b ''latest'' ''linux'' ''x86_64'' [] = (Inl IndexError, mirror_b, [])
   \<and> get_urls demo_env [mirror_b, mirror_c] ''latest'' ''linux'' ''x86_64'' []
       = (Inl IndexError, [] @ mirror_b # [mirror_c], [])
   \<and> fst (get_urls demo_env [mirror_a, mirror_b] ''1.6'' ''linux'' ''x86_64'' [])
       = Inr [''http://b.org/1.6'', ''http://a.org/1.6'']
   \<and> length [''http://b.org/1.6'', ''http://a.org/1.6''] = length [mirror_a, mirror_b]"
proof -
  note thm_ac = get_urls_template_error_propagates
         [of "[mirror_a, mirror_c]" demo_env "''1.6''" "''linux''" "''x86_64''" "[]"]
  have m: "mirror_c \<in> set [mirror_a, mirror_c]" by simp
  have g: "generate_info demo_env ''1.6'' ''linux'' ''x86_64''
       = Inr [(''version'', ''1.6''), (''os'', ''linux''), (''arch'', ''x86_64'')]"
    by (simp add: demo_env_def demo_generate_info_def)
  have t: "(if ''1.6'' = ''latest'' then latest_url_templates mirror_c else url_templates mirror_c)
       = [] @ ''http://c.org/$nosuch'' # []"
    by (simp add: mirror_c_def)
  have f: "substitute demo_env ''http://c.org/$nosuch''
       [(''version'', ''1.6''), (''os'', ''linux''), (''arch'', ''x86_64'')] = Inl KeyError"
    by (simp add: demo_defs)
  have p: "get_url_each demo_env [mirror_a] ''1.6'' ''linux'' ''x86_64'' []
       = (Inr [''http://a.org/1.6''],
          [mirror_a\<lparr>private_latencies := [(''a.org'', enat 30)]\<rparr>],
          [Resolve ''a.org'', Resolve ''a.org'', Connect ''10.0.0.1'' 443])"
    by (simp add: demo_defs model_defs)
  have s0: "substitute_all demo_env
              [(''version'', ''1.6''), (''os'', ''linux''), (''arch'', ''x86_64'')] [] = Inr []"
    by simp
  have r: "[mirror_a, mirror_c] = [mirror_a] @ mirror_c # []" by simp
  from thm_ac r p g t s0 f
  have 1: "get_urls demo_env [mirror_a, mirror_c] ''1.6'' ''linux'' ''x86_64'' []
       = (Inl KeyError,
          [mirror_a\<lparr>private_latencies := [(''a.org'', enat 30)]\<rparr>] @ mirror_c # [],
          [Resolve ''a.org'', Resolve ''a.org'', Connect ''10.0.0.1'' 443])"
    by blast
  obtain registry' w'
    where u: "get_urls demo_env [mirror_a, mirror_b] ''1.6'' ''linux'' ''x86_64'' []
                = (Inr [''http://b.org/1.6'', ''http://a.org/1.6''], registry', w')"
    by (simp add: demo_defs model_defs)
  from get_urls_template_error_propagates
         [of "[mirror_a, mirror_b]" demo_env "''1.6''" "''linux''" "''x86_64''" "[]"] u
  have 2: "length [''http://b.org/1.6'', ''http://a.org/1.6''] = length [mirror_a, mirror_b]"
    by blast
  have f': "substitute demo_env ''http://c.org/latest/$nosuch''
       [(''version'', ''latest''), (''os'', ''linux''), (''arch'', ''x86_64'')] = Inl KeyError"
    by (simp add: demo_defs)
  have p': "get_url_each demo_env [] ''latest'' ''linux'' ''x86_64'' [] = (Inr [], [], [])"
    by simp
  have i: "get_url demo_env mirror_b ''latest'' ''linux'' ''x86_64'' []
             = (Inl IndexError, mirror_b, [])"
    by (simp add: demo_defs model_defs)
  have r': "[mirror_b, mirror_c] = [] @ mirror_b # [mirror_c]" by simp
  note first = get_urls_template_error_propagates
         [of "[mirror_b, mirror_c]" demo_env "''latest''" "''linux''" "''x86_64''" "[]",
          THEN conjunct2, THEN conjunct1, rule_format, OF r' p' i]
  from m g t f p 1 f' p' i first 2 u show ?thesis by simp
qed

text \<open>
  The statement of C2 fails on a registry of two mirrors, the second with the template
  \<^verbatim>\<open>http://c.org/$nosuch\<close>: the first mirror alone yields a URL, and \<^verbatim>\<open>get_urls\<close> on the two
  raises \<^verbatim>\<open>KeyError\<close>.
\<close>

theorem get_urls_template_error_counterexample:
  "substitute demo_env ''http://c.org/$nosuch''
     [(''version'', ''1.6''), (''os'', ''linux''), (''arch'', ''x86_64'')] = Inl KeyError
   \<and> fst (get_url demo_env mirror_a ''1.6'' ''linux'' ''x86_64'' []) = Inr ''http://a.org/1.6''
   \<and> fst (get_url demo_env mirror_c ''1.6'' ''linux'' ''x86_64'' []) = Inl KeyError
   \<and> fst (get_urls demo_env [mirror_a, mirror_c] ''1.6'' ''linux'' ''x86_64'' []) = Inl KeyError"
  by (simp add: demo_defs model_defs)

text \<open>
  Once every source has answered \<^verbatim>\<open>get_url\<close>, every cache is filled, so the registry's
  \<^verbatim>\<open>latencies\<close> is a pure merge and computing the sort keys changes nothing.
\<close>

lemma get_url_each_populated:
  assumes "get_url_each E registry plain_version system architecture w
             = (Inr url_list, registry1, w1)"
  shows "\<forall>s \<in> set registry1. private_latencies s \<noteq> []"
  using assms
proof (induction registry arbitrary: w url_list registry1)
  case Nil
  then show ?case by simp
next
  case (Cons src srcs)
  from Cons.prems obtain url s1 w' urls' srcs1
    where g: "get_url E src plain_version system architecture w = (Inr url, s1, w')"
      and e: "get_url_each E srcs plain_version system architecture w' = (Inr urls', srcs1, w1)"
      and r: "registry1 = s1 # srcs1"
    by (auto split: prod.splits sum.splits)
  from get_url_populated [OF g] Cons.IH [OF e] r show ?case by simp
qed

lemma registry_latencies_from_stored:
  assumes "\<forall>s \<in> set registry. private_latencies s \<noteq> []"
  shows "registry_latencies_from E registry records w
           = (Inr (foldl dict_update_all records (map private_latencies registry)), registry, w)"
  using assms
proof (induction registry arbitrary: records)
  case Nil
  show ?case by simp
next
  case (Cons src srcs)
  from Cons.prems have "private_latencies src \<noteq> []" by simp
  from latencies_stored [OF this, of E w] Cons.IH [of "dict_update_all records (private_latencies src)"]
    Cons.prems
  show ?case by simp
qed

lemma registry_keys_stored:
  assumes "\<forall>s \<in> set registry. private_latencies s \<noteq> []"
    and "registry_keys E registry url_list w = (Inr ks, registry', w')"
  shows "registry' = registry \<and> w' = w
    \<and> map (\<lambda>url. map_of (foldl dict_update_all [] (map private_latencies registry))
                    (netloc (urlparse E url))) url_list = map Some ks"
  using assms(2)
proof (induction url_list arbitrary: ks)
  case Nil
  then show ?case by simp
next
  case (Cons url url_list)
  let ?G = "foldl dict_update_all [] (map private_latencies registry)"
  have rl: "registry_latencies E registry w = (Inr ?G, registry, w)"
    by (simp add: registry_latencies_def registry_latencies_from_stored [OF assms(1)])
  from Cons.prems rl obtain k ks'
    where m: "map_of ?G (netloc (urlparse E url)) = Some k"
      and r: "registry_keys E registry url_list w = (Inr ks', registry', w')"
      and ks: "ks = k # ks'"
    by (auto split: prod.splits sum.splits option.splits)
  from Cons.IH [OF r] m ks show ?case by simp
qed

lemma sort_by_keys_sorted:
  fixes ks :: "('l::linorder) list"
  assumes "map key url_list = ks"
  shows "sorted (map key (sort_by_keys ks url_list))"
proof -
  let ?zs = "zip ks url_list"
  have "\<forall>p \<in> set ?zs. key (snd p) = fst p"
    using assms by (auto simp: set_zip)
  then have "\<forall>p \<in> set (sort_key fst ?zs). key (snd p) = fst p"
    by simp
  then have c: "map (key \<circ> snd) (sort_key fst ?zs) = map fst (sort_key fst ?zs)"
    by (intro map_cong) auto
  have "map key (sort_by_keys ks url_list) = map (key \<circ> snd) (sort_key fst ?zs)"
    by (simp add: sort_by_keys_def)
  also note c
  finally have "map key (sort_by_keys ks url_list) = map fst (sort_key fst ?zs)" .
  then show ?thesis
    by (simp only: sorted_sort_key)
qed

lemma mset_sort_by_keys:
  fixes ks :: "('l::linorder) list"
  assumes "length ks = length url_list"
  shows "mset (sort_by_keys ks url_list) = mset url_list"
proof -
  have "mset (sort_by_keys ks url_list) = image_mset snd (mset (sort_key fst (zip ks url_list)))"
    by (simp add: sort_by_keys_def)
  also have "\<dots> = mset (map snd (zip ks url_list))"
    by simp
  also have "\<dots> = mset url_list"
    using assms by simp
  finally show ?thesis .
qed

text \<open>
  \<^bold>\<open>C7\<close>. A candidate list returned by \<^verbatim>\<open>get_urls\<close> has one URL for each mirror: it is a
  rearrangement of the URLs that the mirrors' \<^verbatim>\<open>get_url\<close> have returned. It is sorted
  ascending by the latency that the merged view \<^verbatim>\<open>self.latencies\<close> of the registry, as it
  is after the call, gives to the host of each URL (\<^const>\<open>sorted\<close> is: for all positions
  \<open>i < j\<close>, the key at \<open>i\<close> is at most the key at \<open>j\<close>). A latency that is the greatest of
  all, as the value of a failed measurement, comes after every other one.
\<close>

theorem get_urls_sorted_by_latency:
  fixes E :: "('w, 't, 'l::linorder) env"
  assumes "get_urls E registry plain_version system architecture w = (Inr url_list, registry', w')"
  shows "length url_list = length registry
    \<and> (\<exists>best. get_url_each E registry plain_version system architecture w
                  = (Inr best, registry', w')
             \<and> mset url_list = mset best)
    \<and> (\<exists>records ks.
          (\<forall>w2. registry_latencies E registry' w2 = (Inr records, registry', w2))
        \<and> map (\<lambda>url. map_of records (netloc (urlparse E url))) url_list = map Some ks
        \<and> sorted ks
        \<and> (\<forall>top i j. (\<forall>x. x \<le> top) \<longrightarrow> i \<le> j \<longrightarrow> j < length ks \<longrightarrow>
               ks ! i = top \<longrightarrow> ks ! j = top))"
proof -
  from assms obtain best registry1 w1 ks0
    where e: "get_url_each E registry plain_version system architecture w = (Inr best, registry1, w1)"
      and k: "registry_keys E registry1 best w1 = (Inr ks0, registry', w')"
      and u: "url_list = sort_by_keys ks0 best"
    by (auto simp: get_urls_def split: prod.splits sum.splits)
  let ?G = "foldl dict_update_all [] (map private_latencies registry1)"
  let ?key = "\<lambda>url. map_of ?G (netloc (urlparse E url))"
  note pop = get_url_each_populated [OF e]
  from registry_keys_stored [OF pop k]
  have r: "registry' = registry1" and w: "w' = w1" and m: "map ?key best = map Some ks0"
    by simp_all
  have len: "length ks0 = length best"
    by (rule registry_keys_length [OF k])
  have 1: "length url_list = length registry"
    using get_url_each_length [OF e] len u by (simp add: length_sort_by_keys)
  have 2: "mset url_list = mset best"
    using u len by (simp add: mset_sort_by_keys)
  have 3: "\<forall>w2. registry_latencies E registry' w2 = (Inr ?G, registry', w2)"
    using r pop by (simp add: registry_latencies_def registry_latencies_from_stored)
  have the_key: "map (the \<circ> ?key) best = ks0"
  proof -
    have "map (the \<circ> ?key) best = map the (map ?key best)" by simp
    also have "\<dots> = ks0" unfolding m by (simp add: comp_def)
    finally show ?thesis .
  qed
  have sorted_the: "sorted (map (the \<circ> ?key) url_list)"
    unfolding u by (rule sort_by_keys_sorted [OF the_key])
  have all_some: "\<forall>url \<in> set url_list. ?key url = Some ((the \<circ> ?key) url)"
  proof
    fix url assume "url \<in> set url_list"
    with 2 have "url \<in> set best" by (metis set_mset_mset)
    then have "?key url \<in> set (map ?key best)" by simp
    with m have "?key url \<in> set (map Some ks0)" by simp
    then show "?key url = Some ((the \<circ> ?key) url)" by auto
  qed
  then have 4: "map ?key url_list = map Some (map (the \<circ> ?key) url_list)"
    by (simp add: comp_def)
  have 5: "\<forall>top i j. (\<forall>x. x \<le> top) \<longrightarrow> i \<le> j \<longrightarrow> j < length ks \<longrightarrow>
               ks ! i = top \<longrightarrow> ks ! j = top"
    if "sorted ks" for ks :: "'l list"
  proof (intro allI impI)
    fix top i j
    assume top: "\<forall>x. x \<le> top" and ij: "i \<le> j" and j: "j < length ks" and i: "ks ! i = top"
    from that ij j have "ks ! i \<le> ks ! j" by (rule sorted_nth_mono)
    with i top show "ks ! j = top" by (simp add: antisym)
  qed
  from 1 2 3 4 sorted_the 5 [OF sorted_the] e r w show ?thesis by blast
qed

theorem get_urls_sorted_by_latency_witness:
  "fst (get_urls demo_env [mirror_e, mirror_a, mirror_b] ''1.6'' ''linux'' ''x86_64'' [])
     = Inr [''http://b.org/1.6'', ''http://a.org/1.6'', ''http://c.org/1.6'']
   \<and> length [''http://b.org/1.6'', ''http://a.org/1.6'', ''http://c.org/1.6'']
     = length [mirror_e, mirror_a, mirror_b]
   \<and> fst (get_url_each demo_env [mirror_e, mirror_a, mirror_b] ''1.6'' ''linux'' ''x86_64'' [])
     = Inr [''http://c.org/1.6'', ''http://a.org/1.6'', ''http://b.org/1.6'']
   \<and> fst (registry_latencies demo_env
            (fst (snd (get_urls demo_env [mirror_e, mirror_a, mirror_b]
                         ''1.6'' ''linux'' ''x86_64'' []))) [])
     = Inr [(''c.org'', \<infinity>), (''a.org'', enat 30), (''b.org'', enat 10)]
   \<and> map (\<lambda>url. map_of [(''c.org'', \<infinity>), (''a.org'', enat 30), (''b.org'', enat 10)]
                    (netloc (urlparse demo_env url)))
         [''http://b.org/1.6'', ''http://a.org/1.6'', ''http://c.org/1.6'']
     = map Some [enat 10, enat 30, \<infinity>]
   \<and> sorted [enat 10, enat 30, \<infinity>]"
proof -
  obtain registry' w'
    where g: "get_urls demo_env [mirror_e, mirror_a, mirror_b] ''1.6'' ''linux'' ''x86_64'' []
                = (Inr [''http://b.org/1.6'', ''http://a.org/1.6'', ''http://c.org/1.6''],
                   registry', w')"
    by (simp add: demo_defs model_defs)
  from get_urls_sorted_by_latency [OF g]
  have n: "length [''http://b.org/1.6'', ''http://a.org/1.6'', ''http://c.org/1.6'']
             = length [mirror_e, mirror_a, mirror_b]"
    by blast
  have b: "fst (get_url_each demo_env [mirror_e, mirror_a, mirror_b] ''1.6'' ''linux'' ''x86_64'' [])
     = Inr [''http://c.org/1.6'', ''http://a.org/1.6'', ''http://b.org/1.6'']"
    by (simp add: demo_defs model_defs)
  have r: "fst (registry_latencies demo_env
            (fst (snd (get_urls demo_env [mirror_e, mirror_a, mirror_b]
                         ''1.6'' ''linux'' ''x86_64'' []))) [])
     = Inr [(''c.org'', \<infinity>), (''a.org'', enat 30), (''b.org'', enat 10)]"
    by (simp add: demo_defs model_defs)
  have m: "map (\<lambda>url. map_of [(''c.org'', \<infinity>), (''a.org'', enat 30), (''b.org'', enat 10)]
                    (netloc (urlparse demo_env url)))
         [''http://b.org/1.6'', ''http://a.org/1.6'', ''http://c.org/1.6'']
     = map Some [enat 10, enat 30, \<infinity>]"
    by (simp add: demo_defs)
  have s: "sorted [enat 10, enat 30, \<infinity>]"
    by simp
  from g n b r m s show ?thesis by simp
qed

section \<open>The availability check\<close>

text \<open>
  \<^bold>\<open>C5\<close>, as amended. The specification has every status that is neither a success, nor
  a redirect, nor a 4xx (a 5xx, say) classified Unavailable. The code tests for 4xx and for
  301 and 302 only, and its last branch returns \<^verbatim>\<open>True\<close>: a response whose status is not
  4xx and is neither 301 nor 302 makes the URL Available, a 5xx included.
\<close>

theorem is_url_available_other_status:
  assumes "requests_head E url tmo w = (Inr r, w')"
    and "status_code r div 100 \<noteq> 4"
    and "status_code r \<noteq> 301" and "status_code r \<noteq> 302"
  shows "is_url_available E url tmo w = Some (Inr True, w')"
  using assms by (subst is_url_available.simps) simp

theorem is_url_available_other_status_witness:
  "requests_head demo_env ''http://t.org/1.6'' 10 []
     = (Inr \<lparr>status_code = 503, headers = []\<rparr>, [Head ''http://t.org/1.6''])
   \<and> status_code \<lparr>status_code = 503, headers = []\<rparr> div 100 \<noteq> 4
   \<and> status_code \<lparr>status_code = 503, headers = []\<rparr> \<noteq> 301
   \<and> status_code \<lparr>status_code = 503, headers = []\<rparr> \<noteq> 302
   \<and> is_url_available demo_env ''http://t.org/1.6'' 10 []
     = Some (Inr True, [Head ''http://t.org/1.6''])"
proof -
  have h: "requests_head demo_env ''http://t.org/1.6'' 10 []
     = (Inr \<lparr>status_code = 503, headers = []\<rparr>, [Head ''http://t.org/1.6''])"
    by (simp add: demo_env_def demo_requests_head_def)
  show ?thesis
    using h is_url_available_other_status [OF h] by simp
qed

text \<open>The statement of C5 fails on a server that answers 500: the check returns \<^verbatim>\<open>True\<close>.\<close>

theorem is_url_available_5xx_counterexample:
  "requests_head demo_env ''http://s.org/1.6'' 10 []
     = (Inr \<lparr>status_code = 500, headers = []\<rparr>, [Head ''http://s.org/1.6''])
   \<and> is_url_available demo_env ''http://s.org/1.6'' 10 []
     = Some (Inr True, [Head ''http://s.org/1.6''])"
  by (simp add: is_url_available.simps demo_env_def demo_requests_head_def)

text \<open>
  \<^bold>\<open>C6\<close>, as amended. The specification has every 3xx response with a Location followed.
  The code follows the statuses 301 and 302 only: for these, when the response carries a
  \<^verbatim>\<open>Location\<close> header, the check of the URL is the check of the target, made with the same
  timeout in the world that the first request has left. Other redirect statuses fall to
  the last branch of the function.
\<close>

theorem is_url_available_redirect:
  assumes "requests_head E url tmo w = (Inr r, w')"
    and "status_code r = 301 \<or> status_code r = 302"
    and "map_of (headers r) ''Location'' = Some new_url"
  shows "is_url_available E url tmo w = is_url_available E new_url tmo w'"
  using assms by (subst is_url_available.simps) auto

theorem is_url_available_redirect_witness:
  "requests_head demo_env ''http://r.org/1.6'' 10 []
     = (Inr \<lparr>status_code = 301, headers = [(''Location'', ''http://b.org/1.6'')]\<rparr>,
        [Head ''http://r.org/1.6''])
   \<and> is_url_available demo_env ''http://r.org/1.6'' 10 []
     = is_url_available demo_env ''http://b.org/1.6'' 10 [Head ''http://r.org/1.6'']
   \<and> is_url_available demo_env ''http://b.org/1.6'' 10 [Head ''http://r.org/1.6'']
     = Some (Inr False, [Head ''http://r.org/1.6'', Head ''http://b.org/1.6''])"
proof -
  have h: "requests_head demo_env ''http://r.org/1.6'' 10 []
     = (Inr \<lparr>status_code = 301, headers = [(''Location'', ''http://b.org/1.6'')]\<rparr>,
        [Head ''http://r.org/1.6''])"
    by (simp add: demo_env_def demo_requests_head_def)
  have t: "is_url_available demo_env ''http://b.org/1.6'' 10 [Head ''http://r.org/1.6'']
     = Some (Inr False, [Head ''http://r.org/1.6'', Head ''http://b.org/1.6''])"
    by (simp add: is_url_available.simps demo_env_def demo_requests_head_def)
  from is_url_available_redirect [OF h, of "''http://b.org/1.6''"] h t show ?thesis
    by simp
qed

text \<open>
  The statement of C6 fails for a 307 whose target answers 404: the check sends one request
  and returns \<^verbatim>\<open>True\<close>, where the check of the target returns \<^verbatim>\<open>False\<close>.
\<close>

theorem is_url_available_307_counterexample:
  "requests_head demo_env ''http://m.org/1.6'' 10 []
     = (Inr \<lparr>status_code = 307, headers = [(''Location'', ''http://b.org/1.6'')]\<rparr>,
        [Head ''http://m.org/1.6''])
   \<and> is_url_available demo_env ''http://m.org/1.6'' 10 []
     = Some (Inr True, [Head ''http://m.org/1.6''])
   \<and> is_url_available demo_env ''http://b.org/1.6'' 10 [Head ''http://m.org/1.6'']
     = Some (Inr False, [Head ''http://m.org/1.6'', Head ''http://b.org/1.6''])"
  by (simp add: is_url_available.simps demo_env_def demo_requests_head_def)

text \<open>
  A check that returns \<^verbatim>\<open>False\<close> has ended on a request that raised
  \<^verbatim>\<open>RequestException\<close> or was answered by a 4xx; the world it returns is the one right after
  that request.
\<close>

lemma is_url_available_False_cause:
  assumes "is_url_available E url tmo w = Some y"
  shows "fst y = Inr False \<longrightarrow>
    (\<exists>u w0. requests_head E u tmo w0 = (Inl RequestException, snd y)
       \<or> (\<exists>r. requests_head E u tmo w0 = (Inr r, snd y) \<and> status_code r div 100 = 4))"
  using assms
proof (induct rule: is_url_available.raw_induct [rotated -1, consumes 1])
  case (1 f E url tmo w y)
  show ?case
  proof (cases "requests_head E url tmo w")
    case (Pair res w')
    show ?thesis
    proof (cases res)
      case (Inl e)
      show ?thesis
      proof (cases "e = RequestException")
        case True
        with Pair Inl 1(2) have "y = (Inr False, w')" by simp
        with Pair Inl True show ?thesis by auto
      next
        case False
        with Pair Inl 1(2) show ?thesis by auto
      qed
    next
      case (Inr r)
      show ?thesis
      proof (cases "status_code r div 100 = 4")
        case True
        with Pair Inr 1(2) have "y = (Inr False, w')" by simp
        with Pair Inr True show ?thesis by auto
      next
        case False
        show ?thesis
        proof (cases "status_code r = 301 \<or> status_code r = 302")
          case redirect: True
          show ?thesis
          proof (cases "map_of (headers r) ''Location''")
            case None
            with Pair Inr False redirect 1(2) show ?thesis by auto
          next
            case (Some new_url)
            with Pair Inr False redirect 1(2) have "f E new_url tmo w' = Some y" by auto
            then show ?thesis by (rule 1(1))
          qed
        next
          case other: False
          with Pair Inr False 1(2) show ?thesis by auto
        qed
      qed
    qed
  qed
qed

text \<open>
  \<^bold>\<open>C10\<close>. A response with status 301 or 302 and no \<^verbatim>\<open>Location\<close> header makes
  \<^verbatim>\<open>is_url_available\<close> raise \<^verbatim>\<open>KeyError\<close>; it is not classified Unavailable. And the outcome
  \<^verbatim>\<open>False\<close> comes from nowhere but a request that failed with \<^verbatim>\<open>RequestException\<close> or a
  request answered with a 4xx status.
\<close>

theorem is_url_available_missing_location:
  "(\<forall>r w'. requests_head E url tmo w = (Inr r, w') \<longrightarrow>
       (status_code r = 301 \<or> status_code r = 302) \<longrightarrow> map_of (headers r) ''Location'' = None \<longrightarrow>
       is_url_available E url tmo w = Some (Inl KeyError, w'))
   \<and> (\<forall>w''. is_url_available E url tmo w = Some (Inr False, w'') \<longrightarrow>
       (\<exists>u w0. requests_head E u tmo w0 = (Inl RequestException, w'')
          \<or> (\<exists>r. requests_head E u tmo w0 = (Inr r, w'') \<and> status_code r div 100 = 4)))"
proof (intro conjI allI impI)
  fix r w'
  assume "requests_head E url tmo w = (Inr r, w')"
    and "status_code r = 301 \<or> status_code r = 302"
    and "map_of (headers r) ''Location'' = None"
  then show "is_url_available E url tmo w = Some (Inl KeyError, w')"
    by (subst is_url_available.simps) auto
next
  fix w''
  assume "is_url_available E url tmo w = Some (Inr False, w'')"
  from is_url_available_False_cause [OF this]
  show "\<exists>u w0. requests_head E u tmo w0 = (Inl RequestException, w'')
          \<or> (\<exists>r. requests_head E u tmo w0 = (Inr r, w'') \<and> status_code r div 100 = 4)"
    by simp
qed

theorem is_url_available_missing_location_witness:
  "requests_head demo_env ''http://n.org/1.6'' 10 []
     = (Inr \<lparr>status_code = 301, headers = []\<rparr>, [Head ''http://n.org/1.6''])
   \<and> is_url_available demo_env ''http://n.org/1.6'' 10 []
     = Some (Inl KeyError, [Head ''http://n.org/1.6''])
   \<and> is_url_available demo_env ''http://r.org/1.6'' 10 []
     = Some (Inr False, [Head ''http://r.org/1.6'', Head ''http://b.org/1.6''])
   \<and> (\<exists>u w0. requests_head demo_env u 10 w0
          = (Inl RequestException, [Head ''http://r.org/1.6'', Head ''http://b.org/1.6''])
        \<or> (\<exists>r. requests_head demo_env u 10 w0
                  = (Inr r, [Head ''http://r.org/1.6'', Head ''http://b.org/1.6''])
               \<and> status_code r div 100 = 4))"
proof -
  have h: "requests_head demo_env ''http://n.org/1.6'' 10 []
     = (Inr \<lparr>status_code = 301, headers = []\<rparr>, [Head ''http://n.org/1.6''])"
    by (simp add: demo_env_def demo_requests_head_def)
  have f: "is_url_available demo_env ''http://r.org/1.6'' 10 []
     = Some (Inr False, [Head ''http://r.org/1.6'', Head ''http://b.org/1.6''])"
    by (simp add: is_url_available.simps demo_env_def demo_requests_head_def)
  from is_url_available_missing_location [of demo_env "''http://n.org/1.6''" 10 "[]"] h
  have k: "is_url_available demo_env ''http://n.org/1.6'' 10 []
     = Some (Inl KeyError, [Head ''http://n.org/1.6''])"
    by simp
  from is_url_available_missing_location [of demo_env "''http://r.org/1.6''" 10 "[]"] f
  have c: "\<exists>u w0. requests_head demo_env u 10 w0
          = (Inl RequestException, [Head ''http://r.org/1.6'', Head ''http://b.org/1.6''])
        \<or> (\<exists>r. requests_head demo_env u 10 w0
                  = (Inr r, [Head ''http://r.org/1.6'', Head ''http://b.org/1.6''])
               \<and> status_code r div 100 = 4)"
    by blast
  from h k f c show ?thesis by blast
qed

section \<open>The probing loop\<close>

text \<open>
  Three facts about \<^const>\<open>first_available\<close>: the shape of its trace, the run in which every
  check fails, and the run that meets its first success.
\<close>

lemma first_available_trace:
  assumes "first_available E tmo url_list w = Some (r, trace, w')"
  shows "prefix (map fst trace) url_list
    \<and> (\<forall>i < length trace. snd (trace ! i) \<noteq> Inr False \<longrightarrow> Suc i = length trace)
    \<and> (case r of
          Inr None \<Rightarrow> map fst trace = url_list \<and> (\<forall>x \<in> set trace. snd x = Inr False)
        | Inr (Some u) \<Rightarrow> trace \<noteq> [] \<and> last trace = (u, Inr True)
        | Inl e \<Rightarrow> trace \<noteq> [] \<and> snd (last trace) = Inl e)"
  using assms
proof (induction url_list arbitrary: w r trace w')
  case Nil
  then show ?case by auto
next
  case (Cons url url_list)
  from Cons.prems obtain res w1 where a: "is_url_available E url tmo w = Some (res, w1)"
    by (auto split: option.splits)
  show ?case
  proof (cases res)
    case (Inl e)
    with a Cons.prems show ?thesis by auto
  next
    case (Inr b)
    show ?thesis
    proof (cases b)
      case True
      with a Inr Cons.prems show ?thesis by auto
    next
      case False
      with a Inr Cons.prems obtain trace1
        where rest: "first_available E tmo url_list w1 = Some (r, trace1, w')"
          and tr: "trace = (url, Inr False) # trace1"
        by (auto split: option.splits)
      note IH = Cons.IH [OF rest]
      have p1: "prefix (map fst trace) (url # url_list)"
        using IH tr by simp
      have p2: "\<forall>i < length trace. snd (trace ! i) \<noteq> Inr False \<longrightarrow> Suc i = length trace"
      proof (intro allI impI)
        fix i assume i: "i < length trace" and ne: "snd (trace ! i) \<noteq> Inr False"
        show "Suc i = length trace"
        proof (cases i)
          case 0
          with ne tr show ?thesis by simp
        next
          case (Suc j)
          with i ne tr IH show ?thesis by auto
        qed
      qed
      have p3: "(case r of
          Inr None \<Rightarrow> map fst trace = url # url_list \<and> (\<forall>x \<in> set trace. snd x = Inr False)
        | Inr (Some u) \<Rightarrow> trace \<noteq> [] \<and> last trace = (u, Inr True)
        | Inl e \<Rightarrow> trace \<noteq> [] \<and> snd (last trace) = Inl e)"
        using IH tr by (auto split: sum.splits option.splits)
      from p1 p2 p3 show ?thesis by blast
    qed
  qed
qed

lemma first_available_all_False_chain:
  assumes "I w"
    and "\<And>url w. url \<in> set url_list \<Longrightarrow> I w
           \<Longrightarrow> \<exists>w'. is_url_available E url tmo w = Some (Inr False, w') \<and> I w'"
  shows "\<exists>ws. length ws = Suc (length url_list) \<and> ws ! 0 = w
           \<and> (\<forall>i < length url_list.
                 is_url_available E (url_list ! i) tmo (ws ! i) = Some (Inr False, ws ! Suc i))
           \<and> first_available E tmo url_list w
               = Some (Inr None, map (\<lambda>u. (u, Inr False)) url_list, ws ! length url_list)"
  using assms
proof (induction url_list arbitrary: w)
  case Nil
  have "length [w] = Suc (length ([] :: string list)) \<and> [w] ! 0 = w
           \<and> first_available E tmo [] w = Some (Inr None, [], [w] ! 0)"
    by simp
  then show ?case by (intro exI [of _ "[w]"]) simp
next
  case (Cons url url_list)
  from Cons.prems(2) [of url w] Cons.prems(1)
  obtain w1 where a: "is_url_available E url tmo w = Some (Inr False, w1)" and i1: "I w1"
    by auto
  have "\<exists>ws. length ws = Suc (length url_list) \<and> ws ! 0 = w1
           \<and> (\<forall>i < length url_list.
                 is_url_available E (url_list ! i) tmo (ws ! i) = Some (Inr False, ws ! Suc i))
           \<and> first_available E tmo url_list w1
               = Some (Inr None, map (\<lambda>u. (u, Inr False)) url_list, ws ! length url_list)"
    by (rule Cons.IH [OF i1]) (simp add: Cons.prems(2))
  then obtain ws where len: "length ws = Suc (length url_list)" and z: "ws ! 0 = w1"
    and st: "\<forall>i < length url_list.
                 is_url_available E (url_list ! i) tmo (ws ! i) = Some (Inr False, ws ! Suc i)"
    and fa: "first_available E tmo url_list w1
               = Some (Inr None, map (\<lambda>u. (u, Inr False)) url_list, ws ! length url_list)"
    by blast
  have 1: "length (w # ws) = Suc (length (url # url_list))" using len by simp
  have 2: "(w # ws) ! 0 = w" by simp
  have 3: "\<forall>i < length (url # url_list).
             is_url_available E ((url # url_list) ! i) tmo ((w # ws) ! i)
               = Some (Inr False, (w # ws) ! Suc i)"
  proof (intro allI impI)
    fix i assume i: "i < length (url # url_list)"
    show "is_url_available E ((url # url_list) ! i) tmo ((w # ws) ! i)
               = Some (Inr False, (w # ws) ! Suc i)"
    proof (cases i)
      case 0
      with a z show ?thesis by simp
    next
      case (Suc j)
      with i st show ?thesis by simp
    qed
  qed
  have 4: "first_available E tmo (url # url_list) w
             = Some (Inr None, map (\<lambda>u. (u, Inr False)) (url # url_list),
                     (w # ws) ! length (url # url_list))"
    using a fa by simp
  from 1 2 3 4 show ?case by blast
qed


lemma query_download_url_first_available:
  assumes "get_urls E registry version system arch w = (Inr url_list, registry1, w1)"
    and "query_download_url E registry version system arch max_try tmo w
           = Some (r, trace, registry2, w2)"
  shows "first_available E tmo (concat (replicate (nat max_try) url_list)) w1
           = Some (r, trace, w2) \<and> registry2 = registry1"
proof (cases "first_available E tmo (concat (replicate (nat max_try) url_list)) w1")
  case None
  with assms show ?thesis by (simp add: query_download_url_def)
next
  case (Some res)
  obtain r' trace' w' where "res = (r', trace', w')" by (cases res)
  with Some assms show ?thesis by (simp add: query_download_url_def)
qed

text \<open>
  \<^bold>\<open>C1\<close>, as amended. The specification has \<^verbatim>\<open>query_download_url\<close> return the final target
  of a redirect chain. The code returns the loop variable: the URL of the candidate list
  that it has handed to the availability check, which has returned \<^verbatim>\<open>True\<close> (whether or not
  the check has followed redirects). The check returns a truth value only, so the target it
  has reached is not known to the loop.
\<close>

theorem query_download_url_returns_candidate:
  assumes "get_urls E registry version system arch w = (Inr url_list, registry1, w1)"
    and "query_download_url E registry version system arch max_try tmo w
           = Some (Inr (Some u), trace, registry2, w2)"
  shows "u \<in> set url_list \<and> trace \<noteq> [] \<and> last trace = (u, Inr True)"
proof -
  let ?all = "concat (replicate (nat max_try) url_list)"
  from query_download_url_first_available [OF assms]
  have fa: "first_available E tmo ?all w1 = Some (Inr (Some u), trace, w2)"
    by simp
  from first_available_trace [OF fa]
  have pre: "prefix (map fst trace) ?all" and ne: "trace \<noteq> []"
    and l: "last trace = (u, Inr True)"
    by simp_all
  from ne have "last trace \<in> set trace" by simp
  with l have "(u, Inr True) \<in> set trace" by simp
  then have "u \<in> fst ` set trace" by (rule image_eqI [rotated]) simp
  then have "u \<in> set (map fst trace)" by simp
  with set_mono_prefix [OF pre] have "u \<in> set ?all" by (rule_tac subsetD)
  with set_concat_replicate [of "nat max_try" url_list] have "u \<in> set url_list"
    by (rule_tac subsetD)
  with ne l show ?thesis by simp
qed

theorem query_download_url_returns_candidate_witness:
  "fst (get_urls demo_env [mirror_a, mirror_b] ''1.6'' ''linux'' ''x86_64'' [])
     = Inr [''http://b.org/1.6'', ''http://a.org/1.6'']
   \<and> map_option fst
       (query_download_url demo_env [mirror_a, mirror_b] ''1.6'' ''linux'' ''x86_64'' 3 10 [])
     = Some (Inr (Some ''http://a.org/1.6''))
   \<and> map_option (fst \<circ> snd)
       (query_download_url demo_env [mirror_a, mirror_b] ''1.6'' ''linux'' ''x86_64'' 3 10 [])
     = Some [(''http://b.org/1.6'', Inr False), (''http://a.org/1.6'', Inr True)]
   \<and> ''http://a.org/1.6'' \<in> set [''http://b.org/1.6'', ''http://a.org/1.6'']
   \<and> last [(''http://b.org/1.6'', Inr False), (''http://a.org/1.6'', Inr True)]
     = (''http://a.org/1.6'', Inr True :: py_error + bool)"
proof -
  obtain registry1 w1
    where g: "get_urls demo_env [mirror_a, mirror_b] ''1.6'' ''linux'' ''x86_64'' []
                = (Inr [''http://b.org/1.6'', ''http://a.org/1.6''], registry1, w1)"
    by (simp add: demo_defs model_defs)
  obtain registry2 w2
    where q: "query_download_url demo_env [mirror_a, mirror_b] ''1.6'' ''linux'' ''x86_64'' 3 10 []
                = Some (Inr (Some ''http://a.org/1.6''),
                        [(''http://b.org/1.6'', Inr False), (''http://a.org/1.6'', Inr True)],
                        registry2, w2)"
    by (simp add: demo_defs model_defs is_url_available.simps replicate_3)
  from query_download_url_returns_candidate [OF g q] g q show ?thesis
    by simp
qed

text \<open>
  The statement of C1 fails where the mirror redirects: \<^verbatim>\<open>http://a.org/1.6\<close> answers 302 with
  the target \<^verbatim>\<open>http://cdn.org/1.6\<close>, which answers 200, and the URL returned is
  \<^verbatim>\<open>http://a.org/1.6\<close>.
\<close>

theorem query_download_url_redirect_counterexample:
  "requests_head demo_env ''http://a.org/1.6'' 10 []
     = (Inr \<lparr>status_code = 302, headers = [(''Location'', ''http://cdn.org/1.6'')]\<rparr>,
        [Head ''http://a.org/1.6''])
   \<and> is_url_available demo_env ''http://a.org/1.6'' 10 []
     = Some (Inr True, [Head ''http://a.org/1.6'', Head ''http://cdn.org/1.6''])
   \<and> map_option fst
       (query_download_url demo_env [mirror_a, mirror_b] ''1.6'' ''linux'' ''x86_64'' 3 10 [])
     = Some (Inr (Some ''http://a.org/1.6''))"
  by (simp add: demo_defs model_defs is_url_available.simps replicate_3)

text \<open>
  \<^bold>\<open>C3\<close>, as amended. The specification has the call return \<^verbatim>\<open>None\<close> whenever no
  candidate becomes Available. The code does so when every check of a candidate returns
  \<^verbatim>\<open>False\<close>; a check that raises ends the call with its exception. The hypothesis is an
  invariant \<open>I\<close> of the world: it holds when the probing starts, every check of a candidate
  made under it returns \<^verbatim>\<open>False\<close> (so it returns, and does not raise) and keeps it. Then
  there is a chain \<open>ws\<close> of worlds, from the one \<^verbatim>\<open>get_urls\<close> has left, with one step for each
  element of the candidate list repeated \<^verbatim>\<open>max_try\<close> times: step \<open>i\<close> is the check of the
  \<open>i\<close>-th element, made in the world that step \<open>i - 1\<close> has left. The call returns \<^verbatim>\<open>None\<close>
  as a value, in the last world of the chain, and its trace is the repeated list: exactly
  \<^verbatim>\<open>max_try\<close> times the length of the candidate list checks, no more and no fewer.
\<close>

theorem query_download_url_exhausts:
  assumes "get_urls E registry version system arch w = (Inr url_list, registry1, w1)"
    and "I w1"
    and "\<And>url w. url \<in> set url_list \<Longrightarrow> I w
           \<Longrightarrow> \<exists>w'. is_url_available E url tmo w = Some (Inr False, w') \<and> I w'"
  shows "\<exists>trace ws.
           length ws = Suc (nat max_try * length url_list)
         \<and> ws ! 0 = w1
         \<and> (\<forall>i < nat max_try * length url_list.
               is_url_available E (concat (replicate (nat max_try) url_list) ! i) tmo (ws ! i)
                 = Some (Inr False, ws ! Suc i))
         \<and> query_download_url E registry version system arch max_try tmo w
             = Some (Inr None, trace, registry1, ws ! (nat max_try * length url_list))
         \<and> map fst trace = concat (replicate (nat max_try) url_list)
         \<and> length trace = nat max_try * length url_list
         \<and> (\<forall>x \<in> set trace. snd x = Inr False)"
proof -
  let ?all = "concat (replicate (nat max_try) url_list)"
  have n: "length ?all = nat max_try * length url_list"
    by (rule length_concat_replicate)
  have "\<exists>ws. length ws = Suc (length ?all) \<and> ws ! 0 = w1
           \<and> (\<forall>i < length ?all.
                 is_url_available E (?all ! i) tmo (ws ! i) = Some (Inr False, ws ! Suc i))
           \<and> first_available E tmo ?all w1
               = Some (Inr None, map (\<lambda>u. (u, Inr False)) ?all, ws ! length ?all)"
  proof (rule first_available_all_False_chain [where I = I, OF assms(2)])
    fix url w assume "url \<in> set ?all" and "I w"
    with set_concat_replicate [of "nat max_try" url_list] assms(3) [of url w]
    show "\<exists>w'. is_url_available E url tmo w = Some (Inr False, w') \<and> I w'"
      by blast
  qed
  then obtain ws where len: "length ws = Suc (length ?all)" and z: "ws ! 0 = w1"
    and st: "\<forall>i < length ?all.
                 is_url_available E (?all ! i) tmo (ws ! i) = Some (Inr False, ws ! Suc i)"
    and fa: "first_available E tmo ?all w1
               = Some (Inr None, map (\<lambda>u. (u, Inr False)) ?all, ws ! length ?all)"
    by blast
  let ?trace = "map (\<lambda>u. (u, Inr False :: py_error + bool)) ?all"
  have q: "query_download_url E registry version system arch max_try tmo w
          = Some (Inr None, ?trace, registry1, ws ! (nat max_try * length url_list))"
    using assms(1) fa n by (simp add: query_download_url_def)
  have m: "map fst ?trace = ?all"
    by (simp add: comp_def)
  have l: "length ?trace = nat max_try * length url_list"
    using n by simp
  have f: "\<forall>x \<in> set ?trace. snd x = Inr False"
    by auto
  from len z st n have c: "length ws = Suc (nat max_try * length url_list) \<and> ws ! 0 = w1
         \<and> (\<forall>i < nat max_try * length url_list.
               is_url_available E (?all ! i) tmo (ws ! i) = Some (Inr False, ws ! Suc i))"
    by simp
  from c q m l f show ?thesis by blast
qed

theorem query_download_url_exhausts_witness:
  "fst (get_urls demo_env [mirror_b, mirror_d] ''1.6'' ''linux'' ''x86_64'' [])
     = Inr [''http://b.org/1.6'', ''http://d.org/1.6'']
   \<and> (\<forall>w. is_url_available demo_env ''http://b.org/1.6'' 10 w
            = Some (Inr False, w @ [Head ''http://b.org/1.6'']))
   \<and> (\<forall>w. is_url_available demo_env ''http://d.org/1.6'' 10 w
            = Some (Inr False, w @ [Head ''http://d.org/1.6'']))
   \<and> map_option fst
        (query_download_url demo_env [mirror_b, mirror_d] ''1.6'' ''linux'' ''x86_64'' 2 10 [])
     = Some (Inr None)
   \<and> map_option (fst \<circ> snd)
        (query_download_url demo_env [mirror_b, mirror_d] ''1.6'' ''linux'' ''x86_64'' 2 10 [])
     = Some [(''http://b.org/1.6'', Inr False), (''http://d.org/1.6'', Inr False),
             (''http://b.org/1.6'', Inr False), (''http://d.org/1.6'', Inr False)]
   \<and> map_option (snd \<circ> snd \<circ> snd)
        (query_download_url demo_env [mirror_b, mirror_d] ''1.6'' ''linux'' ''x86_64'' 2 10 [])
     = Some [Resolve ''c.org'', Resolve ''b.org'', Connect ''10.0.0.3'' 80, Connect ''10.0.0.2'' 80,
             Resolve ''d.org'', Connect ''10.0.0.4'' 80,
             Head ''http://b.org/1.6'', Head ''http://d.org/1.6'',
             Head ''http://b.org/1.6'', Head ''http://d.org/1.6'']
   \<and> nat 2 * length [''http://b.org/1.6'', ''http://d.org/1.6''] = 4"
proof -
  let ?w1 = "[Resolve ''c.org'', Resolve ''b.org'', Connect ''10.0.0.3'' 80, Connect ''10.0.0.2'' 80,
             Resolve ''d.org'', Connect ''10.0.0.4'' 80]"
  let ?b = "''http://b.org/1.6''" and ?d = "''http://d.org/1.6''"
  obtain registry1
    where g: "get_urls demo_env [mirror_b, mirror_d] ''1.6'' ''linux'' ''x86_64'' []
                = (Inr [?b, ?d], registry1, ?w1)"
    by (simp add: demo_defs model_defs)
  have b: "\<And>w. is_url_available demo_env ?b 10 w = Some (Inr False, w @ [Head ?b])"
    by (simp add: is_url_available.simps demo_env_def demo_requests_head_def)
  have d: "\<And>w. is_url_available demo_env ?d 10 w = Some (Inr False, w @ [Head ?d])"
    by (simp add: is_url_available.simps demo_env_def demo_requests_head_def)
  have "\<exists>trace ws.
           length ws = Suc (nat 2 * length [?b, ?d])
         \<and> ws ! 0 = ?w1
         \<and> (\<forall>i < nat 2 * length [?b, ?d].
               is_url_available demo_env (concat (replicate (nat 2) [?b, ?d]) ! i) 10 (ws ! i)
                 = Some (Inr False, ws ! Suc i))
         \<and> query_download_url demo_env [mirror_b, mirror_d] ''1.6'' ''linux'' ''x86_64'' 2 10 []
             = Some (Inr None, trace, registry1, ws ! (nat 2 * length [?b, ?d]))
         \<and> map fst trace = concat (replicate (nat 2) [?b, ?d])
         \<and> length trace = nat 2 * length [?b, ?d]
         \<and> (\<forall>x \<in> set trace. snd x = Inr False)"
  proof (rule query_download_url_exhausts [where I = "\<lambda>w. True", OF g])
    show True ..
  next
    fix url :: string and w :: "event list"
    assume "url \<in> set [?b, ?d]"
    then have "url = ?b \<or> url = ?d" by simp
    with b [of w] d [of w]
    show "\<exists>w'. is_url_available demo_env url 10 w = Some (Inr False, w') \<and> True"
      by auto
  qed
  then obtain trace ws
    where q: "query_download_url demo_env [mirror_b, mirror_d] ''1.6'' ''linux'' ''x86_64'' 2 10 []
             = Some (Inr None, trace, registry1, ws ! (nat 2 * length [?b, ?d]))"
    by blast
  obtain registry2
    where e: "query_download_url demo_env [mirror_b, mirror_d] ''1.6'' ''linux'' ''x86_64'' 2 10 []
             = Some (Inr None,
                     [(?b, Inr False), (?d, Inr False), (?b, Inr False), (?d, Inr False)],
                     registry2, ?w1 @ [Head ?b, Head ?d, Head ?b, Head ?d])"
    by (simp add: demo_defs model_defs is_url_available.simps replicate_2)
  from g b d q e show ?thesis by simp
qed

text \<open>
  The statement of C3 fails on a mirror whose URL answers 301 without a \<^verbatim>\<open>Location\<close> header:
  no candidate ever becomes Available, and the call raises \<^verbatim>\<open>KeyError\<close> after a single
  check, where \<^verbatim>\<open>max_try\<close> is 3.
\<close>

theorem query_download_url_exhausts_counterexample:
  "fst (get_urls demo_env [mirror_n] ''1.6'' ''linux'' ''x86_64'' []) = Inr [''http://n.org/1.6'']
   \<and> requests_head demo_env ''http://n.org/1.6'' 10
        [Resolve ''n.org'', Connect ''10.0.0.5'' 80]
     = (Inr \<lparr>status_code = 301, headers = []\<rparr>,
        [Resolve ''n.org'', Connect ''10.0.0.5'' 80, Head ''http://n.org/1.6''])
   \<and> map_option fst
        (query_download_url demo_env [mirror_n] ''1.6'' ''linux'' ''x86_64'' 3 10 [])
     = Some (Inl KeyError)
   \<and> map_option (fst \<circ> snd)
        (query_download_url demo_env [mirror_n] ''1.6'' ''linux'' ''x86_64'' 3 10 [])
     = Some [(''http://n.org/1.6'', Inl KeyError)]
   \<and> map_option (snd \<circ> snd \<circ> snd)
        (query_download_url demo_env [mirror_n] ''1.6'' ''linux'' ''x86_64'' 3 10 [])
     = Some [Resolve ''n.org'', Connect ''10.0.0.5'' 80, Head ''http://n.org/1.6'']"
  by (simp add: demo_defs model_defs is_url_available.simps replicate_3)



end
